theory Spec2Isabelle
  imports Complex_Main "HOL-Library.Word" "HOL-Library.AList"
begin

section \<open>JavaScript values\<close>

text \<open>
  A JavaScript number is NaN, an infinity or a finite value. The finite values of the
  coordinates are reals: \<open>Math.min\<close> and \<open>Math.max\<close> only select one of their
  arguments, so no rounding is involved there, and the two zeros are identified. The
  finite values of the file counter are the integers that are doubles; \<open>to_double\<close>
  below rounds the result of \<open>parseInt\<close> and of the addition to them.
\<close>

datatype 'a jsnum = NaN | NegInf | Fin 'a | PosInf

datatype jsval =
    JUndefined
  | JNull
  | JBool bool
  | JNum "real jsnum"
  | JStr string
  | JArr "jsval list"
  | JObj "(string \<times> jsval) list"

datatype js_error = Error (message: string)

definition isNaN :: "'a jsnum \<Rightarrow> bool" where
  "isNaN n = (n = NaN)"

fun Math_min :: "'a::linorder jsnum \<Rightarrow> 'a jsnum \<Rightarrow> 'a jsnum" where
  "Math_min NaN _ = NaN"
| "Math_min _ NaN = NaN"
| "Math_min NegInf _ = NegInf"
| "Math_min _ NegInf = NegInf"
| "Math_min PosInf y = y"
| "Math_min x PosInf = x"
| "Math_min (Fin a) (Fin b) = Fin (min a b)"

fun Math_max :: "'a::linorder jsnum \<Rightarrow> 'a jsnum \<Rightarrow> 'a jsnum" where
  "Math_max NaN _ = NaN"
| "Math_max _ NaN = NaN"
| "Math_max PosInf _ = PosInf"
| "Math_max _ PosInf = PosInf"
| "Math_max NegInf y = y"
| "Math_max x NegInf = x"
| "Math_max (Fin a) (Fin b) = Fin (max a b)"

text \<open>The comparison \<open>a <= b\<close> of two numbers; false as soon as one of them is NaN.\<close>

fun num_le :: "'a::linorder jsnum \<Rightarrow> 'a jsnum \<Rightarrow> bool" where
  "num_le NaN _ = False"
| "num_le _ NaN = False"
| "num_le NegInf _ = True"
| "num_le _ PosInf = True"
| "num_le (Fin a) (Fin b) = (a \<le> b)"
| "num_le _ _ = False"

text \<open>\<open>!v\<close>: the values that count as false in a condition.\<close>

fun falsy :: "jsval \<Rightarrow> bool" where
  "falsy JUndefined = True"
| "falsy JNull = True"
| "falsy (JBool b) = (\<not> b)"
| "falsy (JNum n) = (n = NaN \<or> n = Fin 0)"
| "falsy (JStr s) = (s = [])"
| "falsy (JArr _) = False"
| "falsy (JObj _) = False"

text \<open>
  \<open>v.key\<close>: a property of a parsed JSON value. Reading a property of \<open>null\<close> or
  \<open>undefined\<close> throws a TypeError (\<open>None\<close>); an object gives the field or \<open>undefined\<close>;
  the keys read by this program (\<open>access_token\<close>, \<open>error\<close>, \<open>trueColorUrl\<close>) are not
  properties of any other JSON value.
\<close>

fun get_prop :: "jsval \<Rightarrow> string \<Rightarrow> jsval option" where
  "get_prop JUndefined k = None"
| "get_prop JNull k = None"
| "get_prop (JObj fields) k = Some (case map_of fields k of None \<Rightarrow> JUndefined | Some v \<Rightarrow> v)"
| "get_prop _ k = Some JUndefined"

text \<open>
  The numeric coercion that \<open>Math.min\<close> and \<open>Math.max\<close> apply to an argument. The
  engine's reading of a string (and of an array or object, through its string form) is
  the parameter \<open>coerce\<close>.
\<close>

fun ToNumber :: "(jsval \<Rightarrow> real jsnum) \<Rightarrow> jsval \<Rightarrow> real jsnum" where
  "ToNumber coerce JUndefined = NaN"
| "ToNumber coerce JNull = Fin 0"
| "ToNumber coerce (JBool b) = Fin (if b then 1 else 0)"
| "ToNumber coerce (JNum n) = n"
| "ToNumber coerce v = coerce v"

section \<open>The bounding box of the route handler\<close>

text \<open>Lines 48 to 52 of \<open>POST\<close>: the box is \<open>[minLon, minLat, maxLon, maxLat]\<close>.\<close>

definition bbox :: "(jsval \<Rightarrow> real jsnum) \<Rightarrow> jsval \<Rightarrow> jsval \<Rightarrow> jsval \<Rightarrow> jsval \<Rightarrow> real jsnum list" where
  "bbox coerce lat1 lon1 lat2 lon2 =
     (let minLat = Math_min (ToNumber coerce lat1) (ToNumber coerce lat2);
          maxLat = Math_max (ToNumber coerce lat1) (ToNumber coerce lat2);
          minLon = Math_min (ToNumber coerce lon1) (ToNumber coerce lon2);
          maxLon = Math_max (ToNumber coerce lon1) (ToNumber coerce lon2)
      in [minLon, minLat, maxLon, maxLat])"

section \<open>Strings\<close>

text \<open>
  Strings are lists of 8-bit characters; code units above U+00FF are outside the model.
  The receiver of a JavaScript method is the first argument.
\<close>

definition startsWith :: "string \<Rightarrow> string \<Rightarrow> bool" where
  "startsWith s p = (take (length p) s = p)"

definition endsWith :: "string \<Rightarrow> string \<Rightarrow> bool" where
  "endsWith s p = (length p \<le> length s \<and> drop (length s - length p) s = p)"

text \<open>\<open>s.replace(pat, rep)\<close> with a string pattern: only the first occurrence is replaced.\<close>

fun replace :: "string \<Rightarrow> string \<Rightarrow> string \<Rightarrow> string" where
  "replace [] pat rep = (if pat = [] then rep else [])"
| "replace (c # s) pat rep =
     (if startsWith (c # s) pat then rep @ drop (length pat) (c # s)
      else c # replace s pat rep)"

text \<open>\<open>s.split(sep)\<close> for a separator of one character.\<close>

fun split :: "string \<Rightarrow> char \<Rightarrow> string list" where
  "split [] sep = [[]]"
| "split (c # s) sep =
     (if c = sep then [] # split s sep
      else (case split s sep of [] \<Rightarrow> [[c]] | w # ws \<Rightarrow> (c # w) # ws))"

text \<open>\<open>xs[i]\<close>: \<open>undefined\<close> (\<open>None\<close>) out of range.\<close>

definition at_index :: "'a list \<Rightarrow> nat \<Rightarrow> 'a option" where
  "at_index xs i = (if i < length xs then Some (xs ! i) else None)"

subsection \<open>parseInt and the printing of integers\<close>

definition is_white_space :: "char \<Rightarrow> bool" where
  "is_white_space c = (of_char c \<in> {9, 10, 11, 12, 13, 32, 160 :: nat})"

text \<open>The value of a character as a digit; 36 for a character that is no digit in any radix.\<close>

definition digit_value :: "char \<Rightarrow> nat" where
  "digit_value c =
     (let n = of_char c :: nat in
      if 48 \<le> n \<and> n \<le> 57 then n - 48
      else if 97 \<le> n \<and> n \<le> 122 then n - 87
      else if 65 \<le> n \<and> n \<le> 90 then n - 55
      else 36)"

text \<open>
  The Number value of an integer: a double has 53 significant bits, so an integer of more
  bits is rounded to the nearest multiple of the power of two that its length leaves, a
  tie going to the even one. An integer of magnitude up to \<open>2^53\<close> is its own value.
  The overflow to infinity (from \<open>2^1024\<close>, a number of 309 digits, longer than the name
  of a file) is not part of the model.
\<close>

fun bit_length :: "nat \<Rightarrow> nat" where
  "bit_length n = (if n = 0 then 0 else Suc (bit_length (n div 2)))"

declare bit_length.simps [simp del]

definition round_nat :: "nat \<Rightarrow> nat" where
  "round_nat a =
     (let e = bit_length a - 53;
          u = 2 ^ e;
          q = a div u;
          r = a mod u;
          m = (if 2 * r < u \<or> (2 * r = u \<and> even q) then q else q + 1)
      in m * u)"

definition to_double :: "int \<Rightarrow> int" where
  "to_double n = sgn n * int (round_nat (nat \<bar>n\<bar>))"

text \<open>
  \<open>parseInt(string)\<close> without a radix: leading white space is skipped, a sign is read, a
  prefix \<open>0x\<close> or \<open>0X\<close> selects radix 16, and the longest run of digits is the value,
  rounded to a double; no digit at all gives NaN. Of more than 20 significant decimal
  digits an engine may drop the later ones before it rounds; such a number is at least
  \<open>10^20\<close> and lies outside \<open>safe_listing\<close> below.
\<close>

definition parseInt :: "string \<Rightarrow> int jsnum" where
  "parseInt string =
     (let S = dropWhile is_white_space string;
          sign = (if startsWith S ''-'' then - 1 else 1);
          S1 = (if startsWith S ''+'' \<or> startsWith S ''-'' then tl S else S);
          hex = (startsWith S1 ''0x'' \<or> startsWith S1 ''0X'');
          R = (if hex then 16 else 10);
          S2 = (if hex then drop 2 S1 else S1);
          Z = takeWhile (\<lambda>c. digit_value c < R) S2
      in if Z = [] then NaN
         else Fin (to_double (sign * int (foldl (\<lambda>a c. a * R + digit_value c) 0 Z))))"

fun digits :: "nat \<Rightarrow> string" where
  "digits n =
     (if n < 10 then [char_of (48 + n)]
      else digits (n div 10) @ [char_of (48 + n mod 10)])"

declare digits.simps [simp del]

text \<open>
  The string of a number in a template literal. An integer of magnitude up to \<open>2^53\<close>
  is printed by its decimal digits, as here; for a larger double the source prints the
  shortest digits that read back as the same double, and the exponent form from
  \<open>10^21\<close>, which this definition does not follow: the statements about filenames
  carry \<open>safe_listing\<close>, which keeps the counter below \<open>2^53\<close>.
\<close>

fun toString :: "int jsnum \<Rightarrow> string" where
  "toString NaN = ''NaN''"
| "toString PosInf = ''Infinity''"
| "toString NegInf = ''-Infinity''"
| "toString (Fin n) = (if n < 0 then CHR ''-'' # digits (nat (- n)) else digits (nat n))"

text \<open>
  The sum of two numbers, for \<open>Math.max(...numbers) + 1\<close>: the exact sum, rounded to a
  double.
\<close>

fun num_add :: "int jsnum \<Rightarrow> int jsnum \<Rightarrow> int jsnum" where
  "num_add NaN _ = NaN"
| "num_add _ NaN = NaN"
| "num_add PosInf NegInf = NaN"
| "num_add NegInf PosInf = NaN"
| "num_add PosInf _ = PosInf"
| "num_add _ PosInf = PosInf"
| "num_add NegInf _ = NegInf"
| "num_add _ NegInf = NegInf"
| "num_add (Fin a) (Fin b) = Fin (to_double (a + b))"

text \<open>\<open>Math.max(...xs)\<close>: minus infinity for no argument.\<close>

definition Math_max_spread :: "'a::linorder jsnum list \<Rightarrow> 'a jsnum" where
  "Math_max_spread xs = foldl Math_max NegInf xs"

text \<open>The integers below \<open>2^53\<close> in magnitude, on which the counter is exact.\<close>

definition safe_integer :: "int \<Rightarrow> bool" where
  "safe_integer n = (\<bar>n\<bar> < 2 ^ 53)"

section \<open>The cache directory\<close>

text \<open>
  The state of \<open>public/sentinel\<close>: \<open>None\<close> while the directory does not exist, otherwise
  its entries, each a name with the bytes of the file. The calls of \<open>fs\<close> are modelled
  as succeeding.
\<close>

type_synonym byte = "8 word"
type_synonym directory = "(string \<times> byte list) list"
type_synonym fs = "directory option"

text \<open>\<open>if (!fs.existsSync(dir)) fs.mkdirSync(dir, { recursive: true })\<close>\<close>

definition ensure_dir :: "fs \<Rightarrow> directory" where
  "ensure_dir fs = (case fs of None \<Rightarrow> [] | Some d \<Rightarrow> d)"

definition readdirSync :: "directory \<Rightarrow> string list" where
  "readdirSync d = map fst d"

definition writeFileSync :: "string \<Rightarrow> byte list \<Rightarrow> directory \<Rightarrow> directory" where
  "writeFileSync filePath buffer d = AList.update filePath buffer d"

text \<open>
  Lines 18 to 23 of \<open>getNextFilename\<close>: the numbers read from a listing;
  \<open>file_number\<close> is the function mapped over the files in line 22.
\<close>

definition file_number :: "string \<Rightarrow> int jsnum" where
  "file_number f = parseInt (replace (replace f ''true-color-'' []) ''.png'' [])"

definition numbers :: "string list \<Rightarrow> int jsnum list" where
  "numbers listing =
     (let files = filter (\<lambda>f. startsWith f ''true-color-'' \<and> endsWith f ''.png'') listing
      in filter (\<lambda>n. \<not> isNaN n) (map file_number files))"

definition getNextFilename :: "fs \<Rightarrow> string \<times> fs" where
  "getNextFilename fs =
     (let dir = ensure_dir fs;
          numbers = numbers (readdirSync dir);
          next = (if length numbers > 0 then num_add (Math_max_spread numbers) (Fin 1) else Fin 1)
      in (''true-color-'' @ toString next @ ''.png'', Some dir))"

section \<open>Base64, as the platform's Buffer does it\<close>

text \<open>
  The character of a value below 64 in the alphabet \<open>A-Z\<close>, \<open>a-z\<close>, \<open>0-9\<close>,
  \<open>+\<close>, \<open>/\<close>, by its position in each range.
\<close>

definition b64_char :: "nat \<Rightarrow> char" where
  "b64_char v =
     (if v < 26 then char_of (65 + v)
      else if v < 52 then char_of (71 + v)
      else if v < 62 then char_of (v - 4)
      else if v = 62 then CHR ''+''
      else CHR ''/'')"

text \<open>\<open>Buffer.from(buf).toString("base64")\<close>: three bytes give four characters, padded with \<open>=\<close>.\<close>

fun to_base64 :: "byte list \<Rightarrow> string" where
  "to_base64 [] = []"
| "to_base64 [a] =
     [b64_char (unat a div 4), b64_char (unat a mod 4 * 16), CHR ''='', CHR ''='']"
| "to_base64 [a, b] =
     [b64_char (unat a div 4), b64_char (unat a mod 4 * 16 + unat b div 16),
      b64_char (unat b mod 16 * 4), CHR ''='']"
| "to_base64 (a # b # c # bs) =
     [b64_char (unat a div 4), b64_char (unat a mod 4 * 16 + unat b div 16),
      b64_char (unat b mod 16 * 4 + unat c div 64), b64_char (unat c mod 64)] @ to_base64 bs"

text \<open>
  The value of a character in the decoder's table: the standard alphabet and the URL-safe
  \<open>-\<close> and \<open>_\<close>; any other character is skipped.
\<close>

definition unbase64 :: "char \<Rightarrow> nat option" where
  "unbase64 ch =
     (let n = of_char ch :: nat in
      if 65 \<le> n \<and> n \<le> 90 then Some (n - 65)
      else if 97 \<le> n \<and> n \<le> 122 then Some (n - 71)
      else if 48 \<le> n \<and> n \<le> 57 then Some (n + 4)
      else if n = 43 \<or> n = 45 then Some 62
      else if n = 47 \<or> n = 95 then Some 63
      else None)"

fun pack_sextets :: "nat list \<Rightarrow> byte list" where
  "pack_sextets (s0 # s1 # s2 # s3 # r) =
     [of_nat (s0 * 4 + s1 div 16), of_nat (s1 mod 16 * 16 + s2 div 4),
      of_nat (s2 mod 4 * 64 + s3)] @ pack_sextets r"
| "pack_sextets [s0, s1, s2] =
     [of_nat (s0 * 4 + s1 div 16), of_nat (s1 mod 16 * 16 + s2 div 4)]"
| "pack_sextets [s0, s1] = [of_nat (s0 * 4 + s1 div 16)]"
| "pack_sextets _ = []"

text \<open>\<open>Buffer.from(s, "base64")\<close>: decoding stops at the first \<open>=\<close>.\<close>

definition from_base64 :: "string \<Rightarrow> byte list" where
  "from_base64 s = pack_sextets (List.map_filter unbase64 (takeWhile (\<lambda>ch. ch \<noteq> CHR ''='') s))"

section \<open>The route handler\<close>

text \<open>
  \<open>downloadImage\<close>: \<open>Buffer.from\<close> throws a TypeError when \<open>split(",")[1]\<close> is
  \<open>undefined\<close>.
\<close>

definition downloadImage :: "string \<Rightarrow> string \<Rightarrow> fs \<Rightarrow> js_error + (string \<times> fs)" where
  "downloadImage imageBase64 filename fs =
     (case at_index (split imageBase64 CHR '','') 1 of
        None \<Rightarrow> Inl (Error ''The first argument must be of type string or an instance of Buffer, ArrayBuffer, or Array or an Array-like Object. Received undefined'')
      | Some b64 \<Rightarrow>
          (let buffer = from_base64 b64;
               dir = ensure_dir fs
           in Inr (''/sentinel/'' @ filename, Some (writeFileSync filename buffer dir))))"

text \<open>
  What the outside world answers. The request body: reading it throws (no JSON, or
  \<open>null\<close>), or it gives the four fields, \<open>JUndefined\<close> for an absent one. The token
  exchange: the call, the reading of its JSON or the reading of \<open>access_token\<close> (on
  \<open>null\<close>) throws, or the parsed body is given by its fields (none for a body that is
  no object). The process call: it throws, or answers with a status that is not ok and
  a text, or with the bytes of the image.
\<close>

datatype request = ReqThrows string | ReqBody jsval jsval jsval jsval

datatype token_reply = TokenThrows string | TokenData "(string \<times> jsval) list"

datatype process_reply = ProcessThrows string | ProcessNotOk string | ProcessOk "byte list"

text \<open>The calls sent to the provider, in order.\<close>

datatype outbound = TokenRequest | ProcessRequest "real jsnum list" jsval

datatype response =
    Json200 (resp_trueColorUrl: string) (resp_filename: string) (resp_bbox: "real jsnum list")
  | Json500 (resp_error: string)

definition fetchImage :: "process_reply \<Rightarrow> js_error + string" where
  "fetchImage res =
     (case res of
        ProcessThrows m \<Rightarrow> Inl (Error m)
      | ProcessNotOk text \<Rightarrow> Inl (Error text)
      | ProcessOk buf \<Rightarrow> Inr (''data:image/png;base64,'' @ to_base64 buf))"

text \<open>
  Lines 123 to 125 of \<open>POST\<close>: the image is stored under the next filename. The result is
  the URL and the filename, or the error thrown, and the directory afterwards.
\<close>

definition cacheImage :: "string \<Rightarrow> fs \<Rightarrow> (js_error + string \<times> string) \<times> fs" where
  "cacheImage trueColorBase64 fs =
     (let (filename, fs1) = getNextFilename fs
      in case downloadImage trueColorBase64 filename fs1 of
           Inl e \<Rightarrow> (Inl e, fs1)
         | Inr (fileUrl, fs2) \<Rightarrow> (Inr (fileUrl, filename), fs2))"

text \<open>
  The body of the \<open>try\<close> block: its result or the error thrown, the calls sent, and the
  directory afterwards.
\<close>

definition POST_try ::
  "(jsval \<Rightarrow> real jsnum) \<Rightarrow> request \<Rightarrow> token_reply \<Rightarrow> process_reply \<Rightarrow> fs
     \<Rightarrow> (js_error + response) \<times> outbound list \<times> fs" where
  "POST_try coerce req tokenRes res fs =
     (case req of
        ReqThrows m \<Rightarrow> (Inl (Error m), [], fs)
      | ReqBody lat1 lon1 lat2 lon2 \<Rightarrow>
          (let bbox = bbox coerce lat1 lon1 lat2 lon2 in
           case tokenRes of
             TokenThrows m \<Rightarrow> (Inl (Error m), [TokenRequest], fs)
           | TokenData tokenData \<Rightarrow>
               (let access_token =
                      (case map_of tokenData ''access_token'' of None \<Rightarrow> JUndefined | Some v \<Rightarrow> v)
                in if falsy access_token
                   then (Inl (Error ''Failed to authenticate with SentinelHub''), [TokenRequest], fs)
                   else
                     (let sent = [TokenRequest, ProcessRequest bbox access_token] in
                      case fetchImage res of
                        Inl e \<Rightarrow> (Inl e, sent, fs)
                      | Inr trueColorBase64 \<Rightarrow>
                          (case cacheImage trueColorBase64 fs of
                             (Inl e, fs') \<Rightarrow> (Inl e, sent, fs')
                           | (Inr (fileUrl, filename), fs') \<Rightarrow>
                               (Inr (Json200 fileUrl filename bbox), sent, fs'))))))"

text \<open>\<open>POST\<close>: the \<open>catch\<close> turns every error into \<open>{ error: err.message }\<close> with status 500.\<close>

definition POST ::
  "(jsval \<Rightarrow> real jsnum) \<Rightarrow> request \<Rightarrow> token_reply \<Rightarrow> process_reply \<Rightarrow> fs
     \<Rightarrow> response \<times> outbound list \<times> fs" where
  "POST coerce req tokenRes res fs =
     (case POST_try coerce req tokenRes res fs of
        (Inl err, sent, fs') \<Rightarrow> (Json500 (message err), sent, fs')
      | (Inr r, sent, fs') \<Rightarrow> (r, sent, fs'))"

section \<open>The page: fetching the image and running the detection\<close>

text \<open>
  The state of the \<open>Home\<close> component that the two handlers read and write; the four
  coordinates are the texts of the input fields.
\<close>

record page =
  lat1 :: string
  lon1 :: string
  lat2 :: string
  lon2 :: string
  trueColorUrl :: jsval
  result :: jsval
  isLoading :: bool
  fetchingImage :: bool

text \<open>
  The answer to a \<open>fetch\<close> followed by \<open>res.json()\<close>: one of the two throws (no
  connection, or a body that is no JSON), or there is a status and a parsed body.
\<close>

datatype fetch_reply = FetchThrows | FetchJson nat jsval

datatype effect = Alert jsval | Fetch string jsval | ScrollToTop


definition runWildfireDetection :: "fetch_reply \<Rightarrow> page \<Rightarrow> page \<times> effect list" where
  "runWildfireDetection reply p =
     (if falsy (trueColorUrl p)
      then (p, [Alert (JStr ''Please fetch the satellite image first!'')])
      else
        (let p1 = p\<lparr>isLoading := True, result := JNull\<rparr>;
             sent = Fetch ''http://localhost:5000/predict'' (JObj [(''image_url'', trueColorUrl p)])
         in case reply of
              FetchJson status data \<Rightarrow>
                (p1\<lparr>result := data, isLoading := False\<rparr>, [sent, ScrollToTop])
            | FetchThrows \<Rightarrow>
                (p1\<lparr>result := JObj [(''error'', JStr ''Failed to connect to prediction server'')],
                    isLoading := False\<rparr>, [sent])))"

text \<open>
  What the page renders of \<open>result\<close>: the card of the verdict under
  \<open>result && !result.error\<close>, the card of the error under \<open>result && result.error\<close>.
\<close>

definition shows_verdict :: "page \<Rightarrow> bool" where
  "shows_verdict p =
     (\<not> falsy (result p) \<and>
      (case get_prop (result p) ''error'' of None \<Rightarrow> False | Some e \<Rightarrow> falsy e))"

definition shows_error :: "page \<Rightarrow> bool" where
  "shows_error p =
     (\<not> falsy (result p) \<and>
      (case get_prop (result p) ''error'' of None \<Rightarrow> False | Some e \<Rightarrow> \<not> falsy e))"

text \<open>A status in the range 200 to 299.\<close>

definition ok_status :: "nat \<Rightarrow> bool" where
  "ok_status status = (200 \<le> status \<and> status \<le> 299)"

section \<open>The naming convention, in the words of the specification\<close>

text \<open>
  A name follows the convention \<open>true-color-<n>.png\<close> when a non-empty run of decimal
  digits stands between the prefix and the extension; \<open>n\<close> is their value.
\<close>

definition convention_suffix :: "string \<Rightarrow> nat option" where
  "convention_suffix f =
     (let mid = take (length f - 15) (drop 11 f)
      in if 16 \<le> length f \<and> take 11 f = ''true-color-'' \<and> drop (length f - 4) f = ''.png''
            \<and> list_all (\<lambda>c. digit_value c < 10) mid
         then Some (foldl (\<lambda>a c. a * 10 + digit_value c) 0 mid)
         else None)"

text \<open>
  The next filename as the specification words it: list the names, keep those of the
  convention, take the maximum of their suffixes (0 if there is none) and add one.
\<close>

definition spec_next_filename :: "string list \<Rightarrow> string" where
  "spec_next_filename listing =
     (let m = foldl max 0 (List.map_filter convention_suffix listing)
      in ''true-color-'' @ digits (m + 1) @ ''.png'')"

text \<open>
  A listing whose numbers leave room for the given count of further files among the safe
  integers, where the counter of the source is exact.
\<close>

definition safe_listing :: "nat \<Rightarrow> string list \<Rightarrow> bool" where
  "safe_listing calls listing =
     list_all (\<lambda>n. case n of Fin k \<Rightarrow> safe_integer (\<bar>k\<bar> + int calls) | _ \<Rightarrow> True)
       (numbers listing)"

text \<open>
  The cache over its lifetime with one caller at a time: the images are stored one after
  the other; the filenames of the successful calls are collected in order.
\<close>

fun cacheImages :: "string list \<Rightarrow> fs \<Rightarrow> string list \<times> fs" where
  "cacheImages [] fs = ([], fs)"
| "cacheImages (img # imgs) fs =
     (case cacheImage img fs of
        (Inl e, fs1) \<Rightarrow> cacheImages imgs fs1
      | (Inr (fileUrl, filename), fs1) \<Rightarrow>
          (let (names, fs2) = cacheImages imgs fs1 in (filename # names, fs2)))"

text \<open>
  The order of two filenames by the numbers read from them; it holds only where both have
  a number.
\<close>

definition number_below :: "string \<Rightarrow> string \<Rightarrow> bool" where
  "number_below a b =
     (case (file_number a, file_number b) of (Fin i, Fin j) \<Rightarrow> i < j | _ \<Rightarrow> False)"

text \<open>The content of a file of the directory, if it exists.\<close>

definition readFile :: "fs \<Rightarrow> string \<Rightarrow> byte list option" where
  "readFile fs f = map_of (ensure_dir fs) f"

section \<open>Concrete inputs\<close>

text \<open>
  A reading of strings, arrays and objects under which none of them is a number, as the
  engine reads the text \<open>abc\<close>; it serves where the coordinates at hand are numbers or
  absent, so that the reading is never consulted.
\<close>

definition not_numeric :: "jsval \<Rightarrow> real jsnum" where
  "not_numeric v = NaN"

text \<open>
  A reading of texts that follows the engine's conversion of a string to a number on the
  texts used below: white space around the text is dropped; what is left reads as 0 when
  it is empty and as its value when it is a run of decimal digits, with or without a
  sign. To every other text, and to arrays and objects, it answers NaN, which is the
  engine's answer for a text that is no numeric literal, such as \<open>abc\<close>; it is not used
  at fractions, exponents, hexadecimal literals, \<open>Infinity\<close>, arrays or objects.
\<close>

definition trim_white_space :: "string \<Rightarrow> string" where
  "trim_white_space s = rev (dropWhile is_white_space (rev (dropWhile is_white_space s)))"

fun decimal_reading :: "jsval \<Rightarrow> real jsnum" where
  "decimal_reading (JStr s) =
     (let t = trim_white_space s;
          negative = startsWith t ''-'';
          ds = (if startsWith t ''+'' \<or> startsWith t ''-'' then tl t else t)
      in if t = [] then Fin 0
         else if ds \<noteq> [] \<and> list_all (\<lambda>c. digit_value c < 10) ds
           then (let n = real (foldl (\<lambda>a c. a * 10 + digit_value c) 0 ds)
                 in Fin (if negative then - n else n))
         else NaN)"
| "decimal_reading v = NaN"

declare decimal_reading.simps [simp del]

text \<open>A page on which an image has been fetched.\<close>

definition page0 :: page where
  "page0 = \<lparr>lat1 = ''10'', lon1 = ''20'', lat2 = ''5'', lon2 = ''15'',
             trueColorUrl = JStr ''/sentinel/true-color-1.png'', result = JNull,
             isLoading = False, fetchingImage = False\<rparr>"

text \<open>The classifier's answer of the specification's example.\<close>

definition verdict0 :: jsval where
  "verdict0 = JObj [(''probability'', JNum (Fin 0.92)), (''prediction'', JNum (Fin 1)),
                    (''label'', JStr ''Wildfire''), (''threshold'', JNum (Fin 0.5))]"

text \<open>
  Directories and images: \<open>dir_full\<close> holds the file whose number is \<open>2^53\<close>; the
  images are the bytes of \<open>Man\<close> and \<open>Ma\<close>.
\<close>

definition dir_unreadable :: fs where
  "dir_unreadable = Some [(''true-color-abc.png'', [1]), (''notes.txt'', [2]), (''true-color-.png'', [])]"

definition dir13 :: fs where
  "dir13 = Some [(''true-color-1.png'', [1]), (''notes.txt'', [2]), (''true-color-3.png'', [3])]"

definition dir_full :: fs where
  "dir_full = Some [(''true-color-9007199254740992.png'', [1])]"

definition image0 :: string where
  "image0 = ''data:image/png;base64,TWFu''"

definition image1 :: string where
  "image1 = ''data:image/png;base64,TWE=''"

section \<open>The bounding box\<close>

lemma decimal_reading_examples:
  "decimal_reading (JStr ''10'') = Fin 10" "decimal_reading (JStr ''20'') = Fin 20"
  "decimal_reading (JStr ''5'') = Fin 5" "decimal_reading (JStr ''15'') = Fin 15"
  "decimal_reading (JStr ''-3'') = Fin (- 3)"
  "decimal_reading (JStr []) = Fin 0" "decimal_reading (JStr '' '') = Fin 0"
  "decimal_reading (JStr ''abc'') = NaN"
  by (simp_all add: decimal_reading.simps trim_white_space_def is_white_space_def startsWith_def
        digit_value_def Let_def)

text \<open>
  C3. For four inputs that read as finite numbers (numbers, or the texts of numbers that
  the page sends), in either order of the two corners, the box is
  \<open>[minLon, minLat, maxLon, maxLat]\<close> with the minimum and the maximum taken on each axis
  alone, so that \<open>minLon <= maxLon\<close> and \<open>minLat <= maxLat\<close>; the inputs
  \<open>lat1 = 10, lon1 = 20, lat2 = 5, lon2 = 15\<close> give \<open>[15, 5, 20, 10]\<close>.
\<close>

theorem bbox_normalized:
  assumes "ToNumber coerce la1 = Fin a1" and "ToNumber coerce lo1 = Fin o1"
    and "ToNumber coerce la2 = Fin a2" and "ToNumber coerce lo2 = Fin o2"
  shows "bbox coerce la1 lo1 la2 lo2
           = [Fin (min o1 o2), Fin (min a1 a2), Fin (max o1 o2), Fin (max a1 a2)]
   \<and> bbox coerce la2 lo2 la1 lo1 = bbox coerce la1 lo1 la2 lo2
   \<and> num_le (bbox coerce la1 lo1 la2 lo2 ! 0) (bbox coerce la1 lo1 la2 lo2 ! 2)
   \<and> num_le (bbox coerce la1 lo1 la2 lo2 ! 1) (bbox coerce la1 lo1 la2 lo2 ! 3)
   \<and> bbox coerce (JNum (Fin 10)) (JNum (Fin 20)) (JNum (Fin 5)) (JNum (Fin 15))
       = [Fin 15, Fin 5, Fin 20, Fin 10]"
  using assms
  by (simp add: bbox_def min.commute max.commute min_le_iff_disj le_max_iff_disj)

theorem bbox_normalized_witness:
  "ToNumber decimal_reading (JStr ''10'') = Fin 10
   \<and> ToNumber decimal_reading (JStr ''20'') = Fin 20
   \<and> ToNumber decimal_reading (JStr ''5'') = Fin 5
   \<and> ToNumber decimal_reading (JNum (Fin 15)) = Fin 15
   \<and> bbox decimal_reading (JStr ''10'') (JStr ''20'') (JStr ''5'') (JNum (Fin 15))
       = [Fin 15, Fin 5, Fin 20, Fin 10]
   \<and> bbox decimal_reading (JStr ''5'') (JNum (Fin 15)) (JStr ''10'') (JStr ''20'')
       = [Fin 15, Fin 5, Fin 20, Fin 10]
   \<and> num_le (bbox decimal_reading (JStr ''10'') (JStr ''20'') (JStr ''5'') (JNum (Fin 15)) ! 0)
            (bbox decimal_reading (JStr ''10'') (JStr ''20'') (JStr ''5'') (JNum (Fin 15)) ! 2)
   \<and> num_le (bbox decimal_reading (JStr ''10'') (JStr ''20'') (JStr ''5'') (JNum (Fin 15)) ! 1)
            (bbox decimal_reading (JStr ''10'') (JStr ''20'') (JStr ''5'') (JNum (Fin 15)) ! 3)"
proof -
  have h: "ToNumber decimal_reading (JStr ''10'') = Fin 10"
    "ToNumber decimal_reading (JStr ''20'') = Fin 20"
    "ToNumber decimal_reading (JStr ''5'') = Fin 5"
    "ToNumber decimal_reading (JNum (Fin 15)) = Fin 15"
    by (simp_all add: decimal_reading_examples)
  from bbox_normalized [OF h] h show ?thesis
    by simp
qed

section \<open>The route handler and the provider\<close>

lemma Math_min_NaN_right: "Math_min x NaN = NaN"
  by (cases x) simp_all

lemma Math_max_NaN_right: "Math_max x NaN = NaN"
  by (cases x) simp_all









text \<open>
  C4. When the body of the token exchange has no field \<open>access_token\<close>, the handler
  answers with the authentication error and status 500; the token request is the only
  call sent, so the image request is never issued, and the directory is untouched.
\<close>

theorem no_access_token_no_image_request:
  "map_of tokenData ''access_token'' = None \<Longrightarrow>
   POST coerce (ReqBody a1 o1 a2 o2) (TokenData tokenData) res fs
     = (Json500 ''Failed to authenticate with SentinelHub'', [TokenRequest], fs)"
  by (simp add: POST_def POST_try_def)

theorem no_access_token_no_image_request_witness:
  "map_of [(''token_type'', JStr ''bearer'')] ''access_token'' = None
   \<and> POST not_numeric (ReqBody (JNum (Fin 10)) (JNum (Fin 20)) (JNum (Fin 5)) (JNum (Fin 15)))
        (TokenData [(''token_type'', JStr ''bearer'')]) (ProcessOk [1, 2, 3]) None
     = (Json500 ''Failed to authenticate with SentinelHub'', [TokenRequest], None)"
  using no_access_token_no_image_request [of "[(''token_type'', JStr ''bearer'')]" not_numeric
      "JNum (Fin 10)" "JNum (Fin 20)" "JNum (Fin 5)" "JNum (Fin 15)" "ProcessOk [1, 2, 3]" None]
  by simp

text \<open>
  C7. When the process endpoint answers with a status that is not ok, \<open>fetchImage\<close>
  throws an error whose message is the text of that answer, and the handler returns
  exactly that text as \<open>error\<close>, with status 500 and without storing anything.
\<close>

theorem provider_error_body_unmodified:
  "map_of tokenData ''access_token'' = Some access_token \<Longrightarrow> \<not> falsy access_token \<Longrightarrow>
   fetchImage (ProcessNotOk body) = Inl (Error body)
   \<and> POST coerce (ReqBody a1 o1 a2 o2) (TokenData tokenData) (ProcessNotOk body) fs
     = (Json500 body, [TokenRequest, ProcessRequest (bbox coerce a1 o1 a2 o2) access_token], fs)"
  by (simp add: POST_def POST_try_def fetchImage_def)

theorem provider_error_body_unmodified_witness:
  "map_of [(''access_token'', JStr ''t'')] ''access_token'' = Some (JStr ''t'')
   \<and> \<not> falsy (JStr ''t'')
   \<and> fetchImage (ProcessNotOk ''no data found for the time range'')
       = Inl (Error ''no data found for the time range'')
   \<and> POST not_numeric (ReqBody (JNum (Fin 10)) (JNum (Fin 20)) (JNum (Fin 5)) (JNum (Fin 15)))
        (TokenData [(''access_token'', JStr ''t'')])
        (ProcessNotOk ''no data found for the time range'') None
     = (Json500 ''no data found for the time range'',
        [TokenRequest,
         ProcessRequest (bbox not_numeric (JNum (Fin 10)) (JNum (Fin 20)) (JNum (Fin 5)) (JNum (Fin 15)))
           (JStr ''t'')],
        None)"
  using provider_error_body_unmodified [of "[(''access_token'', JStr ''t'')]" "JStr ''t''"
      "''no data found for the time range''" not_numeric
      "JNum (Fin 10)" "JNum (Fin 20)" "JNum (Fin 5)" "JNum (Fin 15)" None]
  by simp

section \<open>The detection on the page\<close>

lemma inference_throws_gives_error:
  "\<not> falsy (trueColorUrl p) \<Longrightarrow>
   result (fst (runWildfireDetection FetchThrows p))
     = JObj [(''error'', JStr ''Failed to connect to prediction server'')]"
  by (simp add: runWildfireDetection_def)

text \<open>
  C5 at a failing input. The inference endpoint answers with status 500 and a JSON body
  that holds the four fields of a verdict: the status is not looked at, the body becomes
  the result as it is, and the page shows it as a verdict, not as an error.
\<close>

theorem inference_status_is_ignored:
  "\<not> ok_status 500
   \<and> result (fst (runWildfireDetection (FetchJson 500 verdict0) page0)) = verdict0
   \<and> get_prop verdict0 ''error'' = Some JUndefined
   \<and> shows_verdict (fst (runWildfireDetection (FetchJson 500 verdict0) page0))
   \<and> \<not> shows_error (fst (runWildfireDetection (FetchJson 500 verdict0) page0))"
  by (simp add: ok_status_def runWildfireDetection_def page0_def verdict0_def
        shows_verdict_def shows_error_def)

text \<open>
  C8. Whatever JSON the classifier answers with, the result of the page is that value
  itself: every field, the four of the verdict and the reference of the image among
  them, reads as in the answer, and a field \<open>error\<close> is there only if the answer has it.
\<close>

theorem passes_verdict_through:
  "\<not> falsy (trueColorUrl p) \<Longrightarrow>
   result (fst (runWildfireDetection (FetchJson status data) p)) = data
   \<and> (\<forall>k. get_prop (result (fst (runWildfireDetection (FetchJson status data) p))) k
            = get_prop data k)"
  by (simp add: runWildfireDetection_def)

theorem passes_verdict_through_witness:
  "\<not> falsy (trueColorUrl page0)
   \<and> result (fst (runWildfireDetection (FetchJson 200 verdict0) page0))
       = JObj [(''probability'', JNum (Fin 0.92)), (''prediction'', JNum (Fin 1)),
               (''label'', JStr ''Wildfire''), (''threshold'', JNum (Fin 0.5))]
   \<and> get_prop (result (fst (runWildfireDetection (FetchJson 200 verdict0) page0))) ''error''
       = Some JUndefined"
  using passes_verdict_through [of page0 200 verdict0]
  by (simp add: page0_def verdict0_def)

section \<open>Integers as doubles\<close>

lemma bit_length_bounds:
  "0 < n \<Longrightarrow> 2 ^ (bit_length n - 1) \<le> n \<and> n < 2 ^ bit_length n"
proof (induction n rule: bit_length.induct)
  case (1 n)
  show ?case
  proof (cases "n div 2 = 0")
    case True
    with 1 have "n = 1" by (simp add: div_eq_0_iff)
    then show ?thesis
      by (simp add: bit_length.simps)
  next
    case False
    then have pos: "0 < n div 2" by simp
    have bl: "bit_length n = Suc (bit_length (n div 2))"
      using 1(2) by (subst bit_length.simps) simp
    have "0 < bit_length (n div 2)"
      using pos by (subst bit_length.simps) simp
    then have suc: "bit_length (n div 2) = Suc (bit_length (n div 2) - 1)"
      by simp
    from 1(1) [OF _ pos] 1(2)
    have lo: "2 ^ (bit_length (n div 2) - 1) \<le> n div 2" and hi: "n div 2 < 2 ^ bit_length (n div 2)"
      by simp_all
    have "2 * 2 ^ (bit_length (n div 2) - 1) \<le> n"
      using lo by linarith
    then have "2 ^ bit_length (n div 2) \<le> n"
      by (subst suc) simp
    moreover have "n < 2 * 2 ^ bit_length (n div 2)"
      using hi by linarith
    ultimately show ?thesis
      by (simp add: bl)
  qed
qed

lemma bit_length_le:
  assumes "n < 2 ^ k"
  shows "bit_length n \<le> k"
proof (cases "n = 0")
  case True
  then show ?thesis by (simp add: bit_length.simps)
next
  case False
  then have "2 ^ (bit_length n - 1) \<le> n"
    using bit_length_bounds [of n] by simp
  with assms have "(2::nat) ^ (bit_length n - 1) < 2 ^ k"
    by linarith
  then have "bit_length n - 1 < k"
    by simp
  then show ?thesis by simp
qed

lemma bit_length_power: "bit_length (2 ^ k) = Suc k"
  by (induction k) (simp_all add: bit_length.simps)

lemma round_nat_small:
  assumes "a \<le> 2 ^ 53"
  shows "round_nat a = a"
proof (cases "a = 2 ^ 53")
  case True
  show ?thesis
    unfolding round_nat_def Let_def True bit_length_power by simp
next
  case False
  with assms have "a < 2 ^ 53"
    by simp
  then have "bit_length a - 53 = 0"
    using bit_length_le [of a 53] by simp
  then show ?thesis
    by (simp add: round_nat_def Let_def)
qed

lemma round_nat_large:
  assumes "2 ^ 53 \<le> a"
  shows "2 ^ 53 \<le> round_nat a"
proof -
  define P where "P = (2::nat) ^ 52"
  define e where "e = bit_length a - 53"
  define q where "q = a div 2 ^ e"
  define m where "m = (if 2 * (a mod 2 ^ e) < 2 ^ e \<or> (2 * (a mod 2 ^ e) = 2 ^ e \<and> even q)
                        then q else q + 1)"
  have P2: "(2::nat) ^ 53 = 2 * P"
    unfolding P_def by simp
  have pos: "0 < a"
    using assms by (rule less_le_trans [rotated]) simp
  have "\<not> bit_length a \<le> 53"
  proof
    assume "bit_length a \<le> 53"
    then have "(2::nat) ^ bit_length a \<le> 2 ^ 53"
      by (rule power_increasing) simp
    with bit_length_bounds [OF pos] assms show False
      by linarith
  qed
  then have split: "bit_length a - 1 = 52 + e" and e: "1 \<le> e"
    unfolding e_def by simp_all
  have "(2::nat) ^ (52 + e) \<le> a"
    using bit_length_bounds [OF pos] unfolding split by blast
  then have "P * 2 ^ e \<le> a"
    unfolding P_def power_add .
  then have "P \<le> q"
    unfolding q_def by (simp add: less_eq_div_iff_mult_less_eq)
  then have "P \<le> m"
    unfolding m_def by simp
  then have "P * 2 ^ e \<le> m * 2 ^ e"
    by (rule mult_le_mono1)
  moreover have "(2::nat) ^ 1 \<le> 2 ^ e"
    using e by (intro power_increasing) simp_all
  then have "2 * P \<le> P * 2 ^ e"
    by simp
  ultimately have "2 * P \<le> m * 2 ^ e"
    by linarith
  moreover have "round_nat a = m * 2 ^ e"
    unfolding round_nat_def Let_def m_def q_def e_def ..
  ultimately show ?thesis
    unfolding P2 by simp
qed

lemma to_double_small: "\<bar>n\<bar> \<le> 2 ^ 53 \<Longrightarrow> to_double n = n"
  using round_nat_small [of "nat \<bar>n\<bar>"]
  by (simp add: to_double_def nat_le_iff mult_sgn_abs)

lemma to_double_exact:
  assumes "\<bar>to_double n\<bar> < 2 ^ 53"
  shows "to_double n = n"
proof (rule to_double_small, rule ccontr)
  assume "\<not> \<bar>n\<bar> \<le> 2 ^ 53"
  then have "2 ^ 53 \<le> nat \<bar>n\<bar>"
    by (simp add: le_nat_iff)
  then have "2 ^ 53 \<le> round_nat (nat \<bar>n\<bar>)"
    by (rule round_nat_large)
  then have "(2::int) ^ 53 \<le> int (round_nat (nat \<bar>n\<bar>))"
    by (metis of_nat_le_iff of_nat_numeral of_nat_power)
  moreover have "\<bar>to_double n\<bar> = int (round_nat (nat \<bar>n\<bar>))"
    using \<open>\<not> \<bar>n\<bar> \<le> 2 ^ 53\<close> by (auto simp add: to_double_def abs_mult)
  ultimately show False
    using assms by linarith
qed

section \<open>The next filename\<close>

lemma startsWith_append: "startsWith (p @ r) p"
  by (simp add: startsWith_def)

lemma endsWith_append: "endsWith (r @ p) p"
  by (simp add: endsWith_def)

lemma replace_prefix: "p \<noteq> [] \<Longrightarrow> replace (p @ r) p rep = rep @ r"
  by (cases p) (simp_all add: startsWith_def)

lemma replace_png: "CHR ''.'' \<notin> set ds \<Longrightarrow> replace (ds @ ''.png'') ''.png'' [] = ds"
  by (induction ds) (auto simp add: startsWith_def)

lemma decimal_digit_iff: "digit_value c < 10 \<longleftrightarrow> 48 \<le> (of_char c :: nat) \<and> (of_char c :: nat) \<le> 57"
  by (auto simp add: digit_value_def Let_def)

lemma decimal_digit_not_special:
  assumes "digit_value c < 10"
  shows "c \<noteq> CHR ''.''" "c \<noteq> CHR ''-''" "c \<noteq> CHR ''+''" "c \<noteq> CHR ''x''" "c \<noteq> CHR ''X''"
    "\<not> is_white_space c"
  using assms by (auto simp add: decimal_digit_iff is_white_space_def)

lemma digit_value_char_of: "k < 10 \<Longrightarrow> digit_value (char_of (48 + k)) = k"
  by (simp add: digit_value_def Let_def)

lemma digits_nonempty: "digits n \<noteq> []"
  by (subst digits.simps) simp

lemma digits_decimal: "list_all (\<lambda>c. digit_value c < 10) (digits n)"
  by (induction n rule: digits.induct) (subst digits.simps, simp add: digit_value_char_of)

lemma digits_value: "foldl (\<lambda>a c. a * 10 + digit_value c) 0 (digits n) = n"
  by (induction n rule: digits.induct) (subst digits.simps, simp add: digit_value_char_of)


lemma takeWhile_decimal:
  "list_all (\<lambda>c. digit_value c < 10) ds \<Longrightarrow> takeWhile (\<lambda>c. digit_value c < 10) ds = ds"
  by (simp add: list_all_iff)

lemma decimal_no_hex_prefix:
  assumes "list_all (\<lambda>c. digit_value c < 10) ds"
  shows "\<not> startsWith ds ''0x''" "\<not> startsWith ds ''0X''"
proof -
  have "\<not> digit_value CHR ''x'' < 10" "\<not> digit_value CHR ''X'' < 10"
    by (simp_all add: digit_value_def)
  then have "\<not> (\<exists>r. ds = CHR ''0'' # CHR ''x'' # r)" "\<not> (\<exists>r. ds = CHR ''0'' # CHR ''X'' # r)"
    using assms by auto
  then show "\<not> startsWith ds ''0x''" "\<not> startsWith ds ''0X''"
    by (cases ds; cases "tl ds"; auto simp add: startsWith_def)+
qed

lemma parseInt_unsigned:
  assumes "ds \<noteq> []" and "list_all (\<lambda>c. digit_value c < 10) ds"
  shows "parseInt ds = Fin (to_double (int (foldl (\<lambda>a c. a * 10 + digit_value c) 0 ds)))"
proof -
  obtain c r where ds: "ds = c # r"
    using assms(1) by (cases ds) auto
  have c: "digit_value c < 10"
    using assms(2) ds by simp
  have ws: "dropWhile is_white_space ds = ds"
    using decimal_digit_not_special(6) [OF c] ds by simp
  have sign: "\<not> startsWith ds ''-''" "\<not> startsWith ds ''+''"
    using decimal_digit_not_special(2,3) [OF c] ds by (auto simp add: startsWith_def)
  show ?thesis
    unfolding parseInt_def Let_def
    using assms(1)
    by (simp add: ws sign decimal_no_hex_prefix [OF assms(2)] takeWhile_decimal [OF assms(2)])
qed

lemma parseInt_negative:
  assumes "ds \<noteq> []" and "list_all (\<lambda>c. digit_value c < 10) ds"
  shows "parseInt (CHR ''-'' # ds)
           = Fin (to_double (- int (foldl (\<lambda>a c. a * 10 + digit_value c) 0 ds)))"
proof -
  have ws: "\<not> is_white_space CHR ''-''"
    by (simp add: is_white_space_def)
  have sign: "startsWith (CHR ''-'' # ds) ''-''"
    by (simp add: startsWith_def)
  show ?thesis
    unfolding parseInt_def Let_def
    using assms(1)
    by (simp add: ws sign decimal_no_hex_prefix [OF assms(2)] takeWhile_decimal [OF assms(2)])
qed

lemma parseInt_toString: "parseInt (toString (Fin k)) = Fin (to_double k)"
proof (cases "k < 0")
  case True
  then show ?thesis
    by (simp add: parseInt_negative [OF digits_nonempty digits_decimal] digits_value)
next
  case False
  then show ?thesis
    by (simp add: parseInt_unsigned [OF digits_nonempty digits_decimal] digits_value)
qed

lemma toString_no_dot: "CHR ''.'' \<notin> set (toString (Fin k))"
  using digits_decimal [of "nat k"] digits_decimal [of "nat (- k)"] decimal_digit_not_special(1)
  by (auto simp add: list_all_iff)

lemma file_number_of_name:
  "file_number (''true-color-'' @ toString (Fin k) @ ''.png'') = Fin (to_double k)"
proof -
  have a: "replace (''true-color-'' @ toString (Fin k) @ ''.png'') ''true-color-'' []
             = [] @ toString (Fin k) @ ''.png''"
    by (rule replace_prefix) simp
  have b: "replace (toString (Fin k) @ ''.png'') ''.png'' [] = toString (Fin k)"
    by (rule replace_png [OF toString_no_dot])
  show ?thesis
    unfolding file_number_def a append_Nil b by (rule parseInt_toString)
qed

lemma file_number_of_safe_name:
  "\<bar>k\<bar> \<le> 2 ^ 53 \<Longrightarrow> file_number (''true-color-'' @ toString (Fin k) @ ''.png'') = Fin k"
  by (simp only: file_number_of_name to_double_small)

lemma parseInt_cases: "parseInt s = NaN \<or> (\<exists>k. parseInt s = Fin k)"
  by (simp add: parseInt_def Let_def)


lemma name_passes_filter:
  "startsWith (''true-color-'' @ toString n @ ''.png'') ''true-color-''"
  "endsWith (''true-color-'' @ toString n @ ''.png'') ''.png''"
  using startsWith_append [of "''true-color-''" "toString n @ ''.png''"]
    endsWith_append [of "''true-color-'' @ toString n" "''.png''"]
  by simp_all

lemma numbers_Cons:
  "numbers (f # fs) =
     (if startsWith f ''true-color-'' \<and> endsWith f ''.png'' \<and> file_number f \<noteq> NaN
      then file_number f # numbers fs else numbers fs)"
  by (simp add: numbers_def isNaN_def)

lemma numbers_Nil: "numbers [] = []"
  by (simp add: numbers_def)

lemma numbers_append: "numbers (xs @ ys) = numbers xs @ numbers ys"
  by (simp add: numbers_def)

lemma file_number_cases: "file_number f = NaN \<or> (\<exists>k. file_number f = Fin k)"
  using parseInt_cases by (simp add: file_number_def)

lemma numbers_are_Fin: "\<exists>ks. numbers l = map Fin ks"
proof (induction l)
  case Nil
  show ?case by (simp add: numbers_Nil)
next
  case (Cons f l)
  then obtain ks where ks: "numbers l = map Fin ks" by blast
  show ?case
  proof (cases "startsWith f ''true-color-'' \<and> endsWith f ''.png'' \<and> file_number f \<noteq> NaN")
    case True
    then obtain k where "file_number f = Fin k"
      using file_number_cases [of f] by blast
    with True ks have "numbers (f # l) = map Fin (k # ks)"
      by (simp add: numbers_Cons)
    then show ?thesis by blast
  next
    case False
    with ks show ?thesis by (auto simp add: numbers_Cons)
  qed
qed

lemma in_numbers_iff:
  "n \<in> set (numbers l) \<longleftrightarrow>
     (\<exists>f \<in> set l. startsWith f ''true-color-'' \<and> endsWith f ''.png'' \<and> file_number f = n \<and> n \<noteq> NaN)"
  by (auto simp add: numbers_def isNaN_def)

lemma foldl_Math_max_Fin: "foldl Math_max (Fin a) (map Fin ks) = Fin (foldl max a ks)"
  by (induction ks arbitrary: a) simp_all

lemma foldl_max_Max: "foldl max (a::'a::linorder) ks = Max (set (a # ks))"
proof -
  have "(\<lambda>x s. max s x) = (max :: 'a \<Rightarrow> 'a \<Rightarrow> 'a)"
    by (intro ext) (rule max.commute)
  then show ?thesis
    by (simp add: Max.set_eq_fold foldl_conv_fold del: set_simps)
qed

lemma Math_max_spread_Fin:
  "Math_max_spread (Fin k # map Fin ks) = Fin (Max (set (k # ks)))"
  by (simp add: Math_max_spread_def foldl_Math_max_Fin foldl_max_Max del: set_simps)


lemma toString_1: "toString (Fin 1) = ''1''"
  by code_simp

lemma getNextFilename_Nil:
  "numbers (readdirSync (ensure_dir fs)) = [] \<Longrightarrow>
   getNextFilename fs = (''true-color-1.png'', Some (ensure_dir fs))"
  using toString_1 by (simp add: getNextFilename_def Let_def del: toString.simps)

lemma getNextFilename_Cons:
  "numbers (readdirSync (ensure_dir fs)) = map Fin (k # ks) \<Longrightarrow>
   getNextFilename fs
     = (''true-color-'' @ toString (Fin (to_double (Max (set (k # ks)) + 1))) @ ''.png'',
        Some (ensure_dir fs))"
  by (simp add: getNextFilename_def Let_def Math_max_spread_Fin del: set_simps toString.simps)

lemma safe_listingD:
  "safe_listing c l \<Longrightarrow> Fin k \<in> set (numbers l) \<Longrightarrow> \<bar>k\<bar> + int c < 2 ^ 53"
  by (force simp add: safe_listing_def list_all_iff safe_integer_def)

lemma safe_listingI:
  assumes "\<And>k. Fin k \<in> set (numbers l) \<Longrightarrow> \<bar>k\<bar> + int c < 2 ^ 53"
  shows "safe_listing c l"
  unfolding safe_listing_def list_all_iff
proof
  fix n assume n: "n \<in> set (numbers l)"
  show "case n of Fin k \<Rightarrow> safe_integer (\<bar>k\<bar> + int c) | _ \<Rightarrow> True"
  proof (cases n)
    case (Fin k)
    with n assms [of k] show ?thesis
      by (simp add: safe_integer_def)
  qed simp_all
qed

lemma safe_listing_mono: "safe_listing c l \<Longrightarrow> c' \<le> c \<Longrightarrow> safe_listing c' l"
  by (rule safe_listingI) (drule (1) safe_listingD, simp)

lemma next_number_bound:
  assumes "safe_listing (Suc c) l" and "int c + 1 < 2 ^ 53"
    and "numbers l = [] \<longrightarrow> k = 1"
    and "numbers l \<noteq> [] \<longrightarrow> Fin (k - 1) \<in> set (numbers l)"
  shows "\<bar>k\<bar> + int c < 2 ^ 53"
proof (cases "numbers l = []")
  case True
  with assms(2,3) show ?thesis by simp
next
  case False
  with assms(4) have "Fin (k - 1) \<in> set (numbers l)"
    by simp
  from safe_listingD [OF assms(1) this] show ?thesis
    by simp
qed

lemma getNextFilename_number:
  assumes safe: "safe_listing 1 (readdirSync (ensure_dir fs))"
  shows "\<exists>k. fst (getNextFilename fs) = ''true-color-'' @ toString (Fin k) @ ''.png''
       \<and> snd (getNextFilename fs) = Some (ensure_dir fs)
       \<and> (numbers (readdirSync (ensure_dir fs)) = [] \<longrightarrow> k = 1)
       \<and> (numbers (readdirSync (ensure_dir fs)) \<noteq> [] \<longrightarrow>
            Fin (k - 1) \<in> set (numbers (readdirSync (ensure_dir fs))))
       \<and> (\<forall>j. Fin j \<in> set (numbers (readdirSync (ensure_dir fs))) \<longrightarrow> j < k)"
proof -
  obtain ks where ks: "numbers (readdirSync (ensure_dir fs)) = map Fin ks"
    using numbers_are_Fin by blast
  show ?thesis
  proof (cases ks)
    case Nil
    with ks have "getNextFilename fs = (''true-color-1.png'', Some (ensure_dir fs))"
      by (simp add: getNextFilename_Nil)
    then show ?thesis
      using ks Nil toString_1 by (intro exI [of _ 1]) (simp del: toString.simps)
  next
    case (Cons k ks')
    let ?m = "Max (set (k # ks'))"
    let ?ns = "numbers (readdirSync (ensure_dir fs))"
    have ns: "?ns = map Fin (k # ks')"
      using ks Cons by simp
    have "?m \<in> set (k # ks')"
      by (rule Max_in) simp_all
    then have "Fin ?m \<in> Fin ` set (k # ks')"
      by (rule imageI)
    then have mem: "Fin ?m \<in> set ?ns"
      unfolding ns set_map .
    have "\<bar>?m + 1\<bar> \<le> 2 ^ 53"
      using safe_listingD [OF safe mem] by simp
    then have exact: "to_double (?m + 1) = ?m + 1"
      by (rule to_double_small)
    have g: "getNextFilename fs
               = (''true-color-'' @ toString (Fin (?m + 1)) @ ''.png'', Some (ensure_dir fs))"
      using getNextFilename_Cons [OF ns] unfolding exact .
    have less: "\<forall>j. Fin j \<in> set ?ns \<longrightarrow> j < ?m + 1"
    proof (intro allI impI)
      fix j assume "Fin j \<in> set ?ns"
      then have "j \<in> set (k # ks')"
        unfolding ns by auto
      then have "j \<le> ?m"
        by (intro Max_ge) simp_all
      then show "j < ?m + 1" by simp
    qed
    have ne: "?ns \<noteq> []"
      unfolding ns by simp
    show ?thesis
      using g mem less ne by (intro exI [of _ "?m + 1"]) (simp del: set_simps toString.simps)
  qed
qed

lemma getNextFilename_file_number:
  assumes safe: "safe_listing 1 (readdirSync (ensure_dir fs))"
    and k: "fst (getNextFilename fs) = ''true-color-'' @ toString (Fin k) @ ''.png''"
    and empty: "numbers (readdirSync (ensure_dir fs)) = [] \<longrightarrow> k = 1"
    and pred: "numbers (readdirSync (ensure_dir fs)) \<noteq> [] \<longrightarrow>
                 Fin (k - 1) \<in> set (numbers (readdirSync (ensure_dir fs)))"
  shows "file_number (fst (getNextFilename fs)) = Fin k"
proof -
  have "\<bar>k\<bar> + int 0 < 2 ^ 53"
    using safe empty pred by (intro next_number_bound) simp_all
  then have "\<bar>k\<bar> \<le> 2 ^ 53"
    by simp
  then show ?thesis
    unfolding k by (rule file_number_of_safe_name)
qed

lemma getNextFilename_fresh:
  assumes safe: "safe_listing 1 (readdirSync (ensure_dir fs))"
  shows "fst (getNextFilename fs) \<notin> set (readdirSync (ensure_dir fs))"
proof
  assume mem: "fst (getNextFilename fs) \<in> set (readdirSync (ensure_dir fs))"
  obtain k where k: "fst (getNextFilename fs) = ''true-color-'' @ toString (Fin k) @ ''.png''"
    and empty: "numbers (readdirSync (ensure_dir fs)) = [] \<longrightarrow> k = 1"
    and pred: "numbers (readdirSync (ensure_dir fs)) \<noteq> [] \<longrightarrow>
                 Fin (k - 1) \<in> set (numbers (readdirSync (ensure_dir fs)))"
    and less: "\<forall>j. Fin j \<in> set (numbers (readdirSync (ensure_dir fs))) \<longrightarrow> j < k"
    using getNextFilename_number [OF safe] by blast
  note num = getNextFilename_file_number [OF safe k empty pred]
  have "Fin k \<in> set (numbers (readdirSync (ensure_dir fs)))"
    unfolding in_numbers_iff
    using mem k name_passes_filter [of "Fin k"] num
    by (intro bexI [of _ "fst (getNextFilename fs)"]) simp_all
  with less show False by blast
qed

text \<open>
  C10, as stated, fails: \<open>parseInt\<close> reads a sign, so a directory whose only entry is
  \<open>true-color--5.png\<close> gives the number \<open>-5\<close> and the next filename
  \<open>true-color--4.png\<close>, whose suffix is below 1.
\<close>

theorem negative_suffix_gives_suffix_below_one:
  "fst (getNextFilename (Some [(''true-color--5.png'', [])])) = ''true-color--4.png''
   \<and> file_number ''true-color--4.png'' = Fin (- 4)
   \<and> (- 4 :: int) < 1"
  by code_simp

text \<open>
  C10, amended. For a listing within the safe integers: NaN never reaches \<open>Math.max\<close>,
  since the entries whose middle does not parse are dropped; a directory in which no
  entry with the prefix and the extension parses (or that has no such entry) gives
  \<open>true-color-1.png\<close>; the filename returned is \<open>true-color-<k>.png\<close> for an
  integer \<open>k\<close>, and \<open>k >= 1\<close> holds exactly when no entry parses or some entry
  parses to a number that is not negative.
\<close>

theorem next_suffix:
  assumes "safe_listing 1 (readdirSync (ensure_dir fs))"
  shows "NaN \<notin> set (numbers (readdirSync (ensure_dir fs)))
   \<and> ((\<forall>f \<in> set (readdirSync (ensure_dir fs)).
          startsWith f ''true-color-'' \<and> endsWith f ''.png'' \<longrightarrow> file_number f = NaN)
        \<longrightarrow> fst (getNextFilename fs) = ''true-color-1.png'')
   \<and> (\<exists>k. fst (getNextFilename fs) = ''true-color-'' @ toString (Fin k) @ ''.png''
          \<and> file_number (fst (getNextFilename fs)) = Fin k
          \<and> (1 \<le> k \<longleftrightarrow> numbers (readdirSync (ensure_dir fs)) = []
                \<or> (\<exists>j\<ge>0. Fin j \<in> set (numbers (readdirSync (ensure_dir fs))))))"
proof (intro conjI)
  let ?ns = "numbers (readdirSync (ensure_dir fs))"
  show "NaN \<notin> set ?ns"
    by (simp add: in_numbers_iff)
  show "(\<forall>f \<in> set (readdirSync (ensure_dir fs)).
          startsWith f ''true-color-'' \<and> endsWith f ''.png'' \<longrightarrow> file_number f = NaN)
        \<longrightarrow> fst (getNextFilename fs) = ''true-color-1.png''"
  proof
    assume none: "\<forall>f \<in> set (readdirSync (ensure_dir fs)).
          startsWith f ''true-color-'' \<and> endsWith f ''.png'' \<longrightarrow> file_number f = NaN"
    have "?ns = []"
    proof (rule ccontr)
      assume "?ns \<noteq> []"
      then obtain n where "n \<in> set ?ns"
        by (cases ?ns) auto
      then obtain f where "f \<in> set (readdirSync (ensure_dir fs))"
        and "startsWith f ''true-color-''" and "endsWith f ''.png''" and "file_number f \<noteq> NaN"
        unfolding in_numbers_iff by auto
      with none show False
        by simp
    qed
    then show "fst (getNextFilename fs) = ''true-color-1.png''"
      by (simp add: getNextFilename_Nil)
  qed
  obtain k where k: "fst (getNextFilename fs) = ''true-color-'' @ toString (Fin k) @ ''.png''"
    and empty: "?ns = [] \<longrightarrow> k = 1"
    and pred: "?ns \<noteq> [] \<longrightarrow> Fin (k - 1) \<in> set ?ns"
    and less: "\<forall>j. Fin j \<in> set ?ns \<longrightarrow> j < k"
    using getNextFilename_number [OF assms] by blast
  note num = getNextFilename_file_number [OF assms k empty pred]
  have "1 \<le> k \<longleftrightarrow> ?ns = [] \<or> (\<exists>j\<ge>0. Fin j \<in> set ?ns)"
  proof
    assume "1 \<le> k"
    then have "0 \<le> k - 1" by simp
    with pred show "?ns = [] \<or> (\<exists>j\<ge>0. Fin j \<in> set ?ns)" by blast
  next
    assume "?ns = [] \<or> (\<exists>j\<ge>0. Fin j \<in> set ?ns)"
    with empty less show "1 \<le> k" by force
  qed
  with k num
  show "\<exists>k. fst (getNextFilename fs) = ''true-color-'' @ toString (Fin k) @ ''.png''
          \<and> file_number (fst (getNextFilename fs)) = Fin k
          \<and> (1 \<le> k \<longleftrightarrow> ?ns = [] \<or> (\<exists>j\<ge>0. Fin j \<in> set ?ns))"
    by (intro exI [of _ k]) simp
qed

theorem next_suffix_witness:
  "safe_listing 1 (readdirSync (ensure_dir dir_unreadable))
   \<and> file_number ''true-color-abc.png'' = NaN
   \<and> file_number ''true-color-.png'' = NaN
   \<and> \<not> startsWith ''notes.txt'' ''true-color-''
   \<and> numbers (readdirSync (ensure_dir dir_unreadable)) = []
   \<and> fst (getNextFilename dir_unreadable) = ''true-color-1.png''"
proof -
  have h: "safe_listing 1 (readdirSync (ensure_dir dir_unreadable))"
    by code_simp
  have rest: "file_number ''true-color-abc.png'' = NaN"
    "file_number ''true-color-.png'' = NaN"
    "\<not> startsWith ''notes.txt'' ''true-color-''"
    "numbers (readdirSync (ensure_dir dir_unreadable)) = []"
    by code_simp+
  have "\<forall>f \<in> set (readdirSync (ensure_dir dir_unreadable)).
          startsWith f ''true-color-'' \<and> endsWith f ''.png'' \<longrightarrow> file_number f = NaN"
    using rest by (simp add: dir_unreadable_def readdirSync_def ensure_dir_def)
  with next_suffix [OF h] have "fst (getNextFilename dir_unreadable) = ''true-color-1.png''"
    by blast
  with rest h show ?thesis
    by simp
qed


lemma convention_decompose:
  assumes "convention_suffix f = Some n"
  shows "\<exists>mid. f = ''true-color-'' @ mid @ ''.png'' \<and> mid \<noteq> []
           \<and> list_all (\<lambda>c. digit_value c < 10) mid
           \<and> n = foldl (\<lambda>a c. a * 10 + digit_value c) 0 mid"
proof -
  let ?mid = "take (length f - 15) (drop 11 f)"
  from assms have len: "16 \<le> length f" and pre: "take 11 f = ''true-color-''"
    and suf: "drop (length f - 4) f = ''.png''"
    and dec: "list_all (\<lambda>c. digit_value c < 10) ?mid"
    and n: "n = foldl (\<lambda>a c. a * 10 + digit_value c) 0 ?mid"
    by (auto simp add: convention_suffix_def Let_def split: if_splits)
  have "drop (length f - 15) (drop 11 f) = drop (length f - 4) f"
    using len by simp
  then have "drop 11 f = ?mid @ ''.png''"
    using suf append_take_drop_id [of "length f - 15" "drop 11 f"] by simp
  then have "f = ''true-color-'' @ ?mid @ ''.png''"
    using pre append_take_drop_id [of 11 f] by simp
  moreover have "?mid \<noteq> []"
    using len by simp
  ultimately show ?thesis
    using dec n by blast
qed

lemma convention_file_number:
  assumes "convention_suffix f = Some n"
  shows "startsWith f ''true-color-''" "endsWith f ''.png''"
    "file_number f = Fin (to_double (int n))"
proof -
  obtain mid where f: "f = ''true-color-'' @ mid @ ''.png''" and ne: "mid \<noteq> []"
    and dec: "list_all (\<lambda>c. digit_value c < 10) mid"
    and n: "n = foldl (\<lambda>a c. a * 10 + digit_value c) 0 mid"
    using convention_decompose [OF assms] by blast
  show "startsWith f ''true-color-''"
    unfolding f by (rule startsWith_append)
  show "endsWith f ''.png''"
    using endsWith_append [of "''true-color-'' @ mid" "''.png''"] unfolding f by simp
  have dot: "CHR ''.'' \<notin> set mid"
    using dec decimal_digit_not_special(1) by (auto simp add: list_all_iff)
  have a: "replace (''true-color-'' @ mid @ ''.png'') ''true-color-'' [] = [] @ mid @ ''.png''"
    by (rule replace_prefix) simp
  have b: "replace (mid @ ''.png'') ''.png'' [] = mid"
    by (rule replace_png [OF dot])
  show "file_number f = Fin (to_double (int n))"
    unfolding f file_number_def a append_Nil b n by (rule parseInt_unsigned [OF ne dec])
qed

lemma numbers_conventional:
  assumes "\<forall>f \<in> set l. startsWith f ''true-color-'' \<and> endsWith f ''.png''
             \<longrightarrow> convention_suffix f \<noteq> None"
  shows "numbers l = map (\<lambda>n. Fin (to_double (int n))) (List.map_filter convention_suffix l)"
  using assms
proof (induction l)
  case Nil
  show ?case by (simp add: numbers_Nil)
next
  case (Cons f l)
  then have IH: "numbers l
                   = map (\<lambda>n. Fin (to_double (int n))) (List.map_filter convention_suffix l)"
    by simp
  show ?case
  proof (cases "convention_suffix f")
    case None
    with Cons.prems have "\<not> (startsWith f ''true-color-'' \<and> endsWith f ''.png'')"
      by auto
    with None IH show ?thesis
      by (auto simp add: numbers_Cons)
  next
    case (Some n)
    with IH convention_file_number [OF Some] show ?thesis
      by (simp add: numbers_Cons)
  qed
qed

lemma numbers_conventional_safe:
  assumes conv: "\<forall>f \<in> set l. startsWith f ''true-color-'' \<and> endsWith f ''.png''
             \<longrightarrow> convention_suffix f \<noteq> None"
    and safe: "safe_listing 1 l"
  shows "numbers l = map (\<lambda>n. Fin (int n)) (List.map_filter convention_suffix l)"
proof -
  let ?ns = "List.map_filter convention_suffix l"
  have nums: "numbers l = map (\<lambda>n. Fin (to_double (int n))) ?ns"
    by (rule numbers_conventional [OF conv])
  have "to_double (int n) = int n" if "n \<in> set ?ns" for n
  proof -
    have "Fin (to_double (int n)) \<in> set (numbers l)"
      unfolding nums using that by simp
    from safe_listingD [OF safe this] have "\<bar>to_double (int n)\<bar> < 2 ^ 53"
      by simp
    then show ?thesis
      by (rule to_double_exact)
  qed
  then have "map (\<lambda>n. Fin (to_double (int n))) ?ns = map (\<lambda>n. Fin (int n)) ?ns"
    by simp
  with nums show ?thesis
    by simp
qed

lemma foldl_max_mem: "foldl max (a::nat) ks \<in> set (a # ks)"
  unfolding foldl_max_Max by (rule Max_in) simp_all

lemma foldl_Math_max_int:
  "foldl Math_max (Fin (int a)) (map (\<lambda>n. Fin (int n)) ns) = Fin (int (foldl max a ns))"
  by (induction ns arbitrary: a) (simp_all flip: of_nat_max)

lemma digits_Suc_0: "digits (Suc 0) = ''1''"
  by code_simp

lemma conventional_next:
  assumes conv: "\<forall>f \<in> set (readdirSync (ensure_dir fs)).
             startsWith f ''true-color-'' \<and> endsWith f ''.png'' \<longrightarrow> convention_suffix f \<noteq> None"
    and safe: "safe_listing 1 (readdirSync (ensure_dir fs))"
  shows "fst (getNextFilename fs) = spec_next_filename (readdirSync (ensure_dir fs))"
proof -
  let ?ns = "List.map_filter convention_suffix (readdirSync (ensure_dir fs))"
  have nums: "numbers (readdirSync (ensure_dir fs)) = map (\<lambda>n. Fin (int n)) ?ns"
    by (rule numbers_conventional_safe [OF conv safe])
  show ?thesis
  proof (cases ?ns)
    case Nil
    with nums show ?thesis
      using toString_1
      by (simp add: getNextFilename_def spec_next_filename_def Let_def digits_Suc_0
            del: toString.simps)
  next
    case (Cons n ns)
    have "Math_max_spread (map (\<lambda>n. Fin (int n)) (n # ns)) = Fin (int (foldl max n ns))"
      by (simp add: Math_max_spread_def foldl_Math_max_int)
    moreover have "foldl max 0 (n # ns) = foldl max n ns"
      by simp
    moreover have "to_double (int (foldl max n ns) + 1) = int (foldl max n ns) + 1"
    proof (rule to_double_small)
      have "Fin (int (foldl max n ns)) \<in> set (numbers (readdirSync (ensure_dir fs)))"
        using foldl_max_mem [of n ns] by (auto simp add: nums Cons)
      from safe_listingD [OF safe this] show "\<bar>int (foldl max n ns) + 1\<bar> \<le> 2 ^ 53"
        by simp
    qed
    ultimately show ?thesis
      using nums Cons
      by (simp add: getNextFilename_def spec_next_filename_def Let_def nat_add_distrib)
  qed
qed


lemma ensure_dir_Some: "ensure_dir (Some d) = d"
  by (simp add: ensure_dir_def)

lemma update_fresh: "k \<notin> fst ` set al \<Longrightarrow> AList.update k v al = al @ [(k, v)]"
  by (induction al) auto

lemma cacheImage_Inr:
  assumes "cacheImage img fs = (Inr (url, name), fs')"
    and safe: "safe_listing 1 (readdirSync (ensure_dir fs))"
  shows "name = fst (getNextFilename fs)"
    and "\<exists>buf. fs' = Some (ensure_dir fs @ [(name, buf)])"
proof -
  have snd: "snd (getNextFilename fs) = Some (ensure_dir fs)"
    by (simp add: getNextFilename_def Let_def)
  from assms(1) show name: "name = fst (getNextFilename fs)"
    by (auto simp add: cacheImage_def downloadImage_def Let_def
          split: prod.splits sum.splits option.splits)
  have "name \<notin> fst ` set (ensure_dir fs)"
    using getNextFilename_fresh [OF safe] name by (simp add: readdirSync_def)
  then have "\<And>buf. writeFileSync name buf (ensure_dir fs) = ensure_dir fs @ [(name, buf)]"
    by (simp add: writeFileSync_def update_fresh)
  with assms(1) snd show "\<exists>buf. fs' = Some (ensure_dir fs @ [(name, buf)])"
    by (auto simp add: cacheImage_def downloadImage_def Let_def ensure_dir_def
          split: prod.splits sum.splits option.splits)
qed

lemma cacheImage_Inl:
  "cacheImage img fs = (Inl e, fs') \<Longrightarrow> fs' = Some (ensure_dir fs)"
  by (auto simp add: cacheImage_def downloadImage_def getNextFilename_def Let_def
        split: prod.splits sum.splits option.splits)

lemma cacheImage_step:
  assumes "cacheImage img fs = (Inr (url, name), fs')"
    and safe: "safe_listing 1 (readdirSync (ensure_dir fs))"
  shows "name \<notin> set (readdirSync (ensure_dir fs))"
    and "readdirSync (ensure_dir fs') = readdirSync (ensure_dir fs) @ [name]"
    and "\<forall>f \<in> set (readdirSync (ensure_dir fs)). readFile fs' f = readFile fs f"
    and "\<exists>k. file_number name = Fin k
           \<and> (\<forall>j. Fin j \<in> set (numbers (readdirSync (ensure_dir fs))) \<longrightarrow> j < k)
           \<and> numbers (readdirSync (ensure_dir fs'))
               = numbers (readdirSync (ensure_dir fs)) @ [Fin k]
           \<and> (numbers (readdirSync (ensure_dir fs)) = [] \<longrightarrow> k = 1)
           \<and> (numbers (readdirSync (ensure_dir fs)) \<noteq> [] \<longrightarrow>
                Fin (k - 1) \<in> set (numbers (readdirSync (ensure_dir fs))))"
proof -
  note name = cacheImage_Inr(1) [OF assms]
  obtain buf where fs': "fs' = Some (ensure_dir fs @ [(name, buf)])"
    using cacheImage_Inr(2) [OF assms] by blast
  show fresh: "name \<notin> set (readdirSync (ensure_dir fs))"
    unfolding name by (rule getNextFilename_fresh [OF safe])
  show listing: "readdirSync (ensure_dir fs') = readdirSync (ensure_dir fs) @ [name]"
    by (simp add: fs' readdirSync_def ensure_dir_Some)
  show "\<forall>f \<in> set (readdirSync (ensure_dir fs)). readFile fs' f = readFile fs f"
  proof
    fix f assume "f \<in> set (readdirSync (ensure_dir fs))"
    then have "map_of (ensure_dir fs) f \<noteq> None"
      by (simp add: readdirSync_def map_of_eq_None_iff)
    then obtain v where "map_of (ensure_dir fs) f = Some v"
      by blast
    then show "readFile fs' f = readFile fs f"
      by (simp add: fs' readFile_def ensure_dir_Some map_add_Some_iff)
  qed
  obtain k where k: "fst (getNextFilename fs) = ''true-color-'' @ toString (Fin k) @ ''.png''"
    and empty: "numbers (readdirSync (ensure_dir fs)) = [] \<longrightarrow> k = 1"
    and pred: "numbers (readdirSync (ensure_dir fs)) \<noteq> [] \<longrightarrow>
                 Fin (k - 1) \<in> set (numbers (readdirSync (ensure_dir fs)))"
    and less: "\<forall>j. Fin j \<in> set (numbers (readdirSync (ensure_dir fs))) \<longrightarrow> j < k"
    using getNextFilename_number [OF safe] by blast
  have num: "file_number name = Fin k"
    unfolding name by (rule getNextFilename_file_number [OF safe k empty pred])
  have "numbers [name] = [Fin k]"
    using num name_passes_filter [of "Fin k"] by (simp add: numbers_Cons numbers_Nil name k)
  then have "numbers (readdirSync (ensure_dir fs'))
               = numbers (readdirSync (ensure_dir fs)) @ [Fin k]"
    by (simp add: listing numbers_append)
  with num less empty pred
  show "\<exists>k. file_number name = Fin k
           \<and> (\<forall>j. Fin j \<in> set (numbers (readdirSync (ensure_dir fs))) \<longrightarrow> j < k)
           \<and> numbers (readdirSync (ensure_dir fs'))
               = numbers (readdirSync (ensure_dir fs)) @ [Fin k]
           \<and> (numbers (readdirSync (ensure_dir fs)) = [] \<longrightarrow> k = 1)
           \<and> (numbers (readdirSync (ensure_dir fs)) \<noteq> [] \<longrightarrow>
                Fin (k - 1) \<in> set (numbers (readdirSync (ensure_dir fs))))"
    by (intro exI [of _ k]) simp
qed


lemma cacheImages_run:
  "cacheImages imgs fs = (names, fs') \<Longrightarrow>
   safe_listing (length imgs) (readdirSync (ensure_dir fs)) \<Longrightarrow> int (length imgs) < 2 ^ 53 \<Longrightarrow>
     set (readdirSync (ensure_dir fs')) = set (readdirSync (ensure_dir fs)) \<union> set names
     \<and> (\<forall>f \<in> set (readdirSync (ensure_dir fs)). readFile fs' f = readFile fs f)
     \<and> set names \<inter> set (readdirSync (ensure_dir fs)) = {}
     \<and> distinct names
     \<and> sorted_wrt number_below names
     \<and> (\<forall>n \<in> set names. \<exists>k. file_number n = Fin k
            \<and> (\<forall>j. Fin j \<in> set (numbers (readdirSync (ensure_dir fs))) \<longrightarrow> j < k))"
proof (induction imgs arbitrary: fs names)
  case Nil
  then show ?case by simp
next
  case (Cons img imgs)
  obtain r fs1 where step: "cacheImage img fs = (r, fs1)"
    by (cases "cacheImage img fs")
  show ?case
  proof (cases r)
    case (Inl e)
    with step Cons.prems(1) have run: "cacheImages imgs fs1 = (names, fs')"
      by simp
    have "fs1 = Some (ensure_dir fs)"
      using step Inl by (intro cacheImage_Inl [of img fs e]) simp
    then have same: "ensure_dir fs1 = ensure_dir fs"
      by (simp add: ensure_dir_Some)
    then have "\<forall>f. readFile fs1 f = readFile fs f"
      by (simp add: readFile_def)
    moreover have "safe_listing (length imgs) (readdirSync (ensure_dir fs1))"
      unfolding same using Cons.prems(2) by (rule safe_listing_mono) simp
    moreover have "int (length imgs) < 2 ^ 53"
      using Cons.prems(3) by simp
    ultimately show ?thesis
      using Cons.IH [OF run] same by simp
  next
    case (Inr p)
    obtain url name where p: "p = (url, name)"
      by (cases p)
    note ok = step [unfolded Inr p]
    obtain names' where run: "cacheImages imgs fs1 = (names', fs')" and names: "names = name # names'"
      using Cons.prems(1) ok by (auto split: prod.splits)
    have safe_all: "safe_listing (Suc (length imgs)) (readdirSync (ensure_dir fs))"
      using Cons.prems(2) by simp
    have safe: "safe_listing 1 (readdirSync (ensure_dir fs))"
      using safe_all by (rule safe_listing_mono) simp
    have count: "int (length imgs) + 1 < 2 ^ 53"
      using Cons.prems(3) by simp
    note fresh = cacheImage_step(1) [OF ok safe]
    note listing = cacheImage_step(2) [OF ok safe]
    note kept = cacheImage_step(3) [OF ok safe]
    obtain k where k: "file_number name = Fin k"
      and less: "\<forall>j. Fin j \<in> set (numbers (readdirSync (ensure_dir fs))) \<longrightarrow> j < k"
      and nums: "numbers (readdirSync (ensure_dir fs1))
                   = numbers (readdirSync (ensure_dir fs)) @ [Fin k]"
      and empty: "numbers (readdirSync (ensure_dir fs)) = [] \<longrightarrow> k = 1"
      and pred: "numbers (readdirSync (ensure_dir fs)) \<noteq> [] \<longrightarrow>
                   Fin (k - 1) \<in> set (numbers (readdirSync (ensure_dir fs)))"
      using cacheImage_step(4) [OF ok safe] by blast
    have bound: "\<bar>k\<bar> + int (length imgs) < 2 ^ 53"
      using safe_all count empty pred by (rule next_number_bound)
    have safe1: "safe_listing (length imgs) (readdirSync (ensure_dir fs1))"
    proof (rule safe_listingI)
      fix j assume "Fin j \<in> set (numbers (readdirSync (ensure_dir fs1)))"
      then have "Fin j \<in> set (numbers (readdirSync (ensure_dir fs))) \<or> j = k"
        unfolding nums by auto
      then show "\<bar>j\<bar> + int (length imgs) < 2 ^ 53"
        using safe_listingD [OF safe_all, of j] bound by auto
    qed
    have count1: "int (length imgs) < 2 ^ 53"
      using count by simp
    note IH = Cons.IH [OF run safe1 count1]
    have later: "\<forall>n \<in> set names'. \<exists>k'. file_number n = Fin k' \<and> k < k'
                   \<and> (\<forall>j. Fin j \<in> set (numbers (readdirSync (ensure_dir fs))) \<longrightarrow> j < k')"
      using IH nums by auto
    have "set (readdirSync (ensure_dir fs')) = set (readdirSync (ensure_dir fs)) \<union> set names"
      using IH listing names by auto
    moreover have "\<forall>f \<in> set (readdirSync (ensure_dir fs)). readFile fs' f = readFile fs f"
      using IH listing kept by auto
    moreover have "set names \<inter> set (readdirSync (ensure_dir fs)) = {}"
      using IH listing names fresh by auto
    moreover have "distinct names"
      using IH listing names by auto
    moreover have "\<forall>n \<in> set names'. number_below name n"
      using later k by (auto simp add: number_below_def)
    then have "sorted_wrt number_below names"
      using IH names by simp
    moreover have "\<forall>n \<in> set names. \<exists>k. file_number n = Fin k
            \<and> (\<forall>j. Fin j \<in> set (numbers (readdirSync (ensure_dir fs))) \<longrightarrow> j < k)"
      using names later k less by auto
    ultimately show ?thesis
      by blast
  qed
qed


text \<open>
  C2, as stated, fails: \<open>true-color-7-backup.png\<close> does not follow the convention
  \<open>true-color-<n>.png\<close>, yet \<open>parseInt\<close> reads 7 from it. Beside
  \<open>true-color-1.png\<close> the source answers \<open>true-color-8.png\<close>, where the maximum
  suffix among the files of the convention is 1 and the claim gives \<open>true-color-2.png\<close>.
\<close>

theorem gap_in_convention:
  "fst (getNextFilename (Some [(''true-color-1.png'', [1]), (''true-color-7-backup.png'', [7])]))
     = ''true-color-8.png''
   \<and> spec_next_filename [''true-color-1.png'', ''true-color-7-backup.png''] = ''true-color-2.png''
   \<and> convention_suffix ''true-color-7-backup.png'' = None
   \<and> file_number ''true-color-7-backup.png'' = Fin 7"
  by code_simp

text \<open>
  C2, amended. For a listing within the safe integers, the next filename is
  \<open>true-color-<m+1>.png\<close> where \<open>m\<close> is the maximum of the numbers that
  \<open>parseInt\<close> reads from the entries with the prefix and the extension (after the prefix
  and the first \<open>.png\<close> are removed), or 0 if there is none. When every such entry
  follows the convention, with a run of decimal digits in the middle, this is the filename
  of the specification. No directory and the empty directory give \<open>true-color-1.png\<close>;
  \<open>true-color-1.png\<close> with \<open>true-color-3.png\<close> gives \<open>true-color-4.png\<close>.
\<close>

theorem next_filename_is_max_plus_one:
  assumes "safe_listing 1 (readdirSync (ensure_dir fs))"
  shows "fst (getNextFilename fs)
           = ''true-color-'' @ toString (Fin
               ((if {k. \<exists>f \<in> set (readdirSync (ensure_dir fs)). startsWith f ''true-color-''
                          \<and> endsWith f ''.png'' \<and> file_number f = Fin k} = {} then 0
                 else Max {k. \<exists>f \<in> set (readdirSync (ensure_dir fs)). startsWith f ''true-color-''
                          \<and> endsWith f ''.png'' \<and> file_number f = Fin k}) + 1)) @ ''.png''
   \<and> ((\<forall>f \<in> set (readdirSync (ensure_dir fs)).
          startsWith f ''true-color-'' \<and> endsWith f ''.png'' \<longrightarrow> convention_suffix f \<noteq> None)
        \<longrightarrow> fst (getNextFilename fs) = spec_next_filename (readdirSync (ensure_dir fs)))
   \<and> fst (getNextFilename None) = ''true-color-1.png''
   \<and> fst (getNextFilename (Some [])) = ''true-color-1.png''
   \<and> fst (getNextFilename (Some [(''true-color-1.png'', c1), (''true-color-3.png'', c3)]))
       = ''true-color-4.png''"
proof (intro conjI)
  let ?l = "readdirSync (ensure_dir fs)"
  let ?S = "{k. \<exists>f \<in> set ?l. startsWith f ''true-color-'' \<and> endsWith f ''.png''
                  \<and> file_number f = Fin k}"
  obtain ks where ks: "numbers ?l = map Fin ks"
    using numbers_are_Fin by blast
  have S: "?S = set ks"
    using in_numbers_iff [of _ ?l] unfolding ks by auto
  show "fst (getNextFilename fs)
          = ''true-color-'' @ toString (Fin ((if ?S = {} then 0 else Max ?S) + 1)) @ ''.png''"
  proof (cases ks)
    case Nil
    with ks S show ?thesis
      using toString_1 by (simp add: getNextFilename_Nil del: toString.simps)
  next
    case (Cons k ks')
    with ks have ns: "numbers ?l = map Fin (k # ks')"
      by simp
    have "Max (set (k # ks')) \<in> set (k # ks')"
      by (rule Max_in) simp_all
    then have "Fin (Max (set (k # ks'))) \<in> Fin ` set (k # ks')"
      by (rule imageI)
    then have "Fin (Max (set (k # ks'))) \<in> set (numbers ?l)"
      unfolding ns set_map .
    from safe_listingD [OF assms this]
    have "to_double (Max (set (k # ks')) + 1) = Max (set (k # ks')) + 1"
      by (intro to_double_small) simp
    with getNextFilename_Cons [OF ns] S Cons show ?thesis
      by (simp del: set_simps toString.simps)
  qed
  show "(\<forall>f \<in> set ?l. startsWith f ''true-color-'' \<and> endsWith f ''.png''
            \<longrightarrow> convention_suffix f \<noteq> None)
        \<longrightarrow> fst (getNextFilename fs) = spec_next_filename ?l"
    using conventional_next [OF _ assms] by blast
  show "fst (getNextFilename None) = ''true-color-1.png''"
    by code_simp
  show "fst (getNextFilename (Some [])) = ''true-color-1.png''"
    by code_simp
  show "fst (getNextFilename (Some [(''true-color-1.png'', c1), (''true-color-3.png'', c3)]))
          = ''true-color-4.png''"
    by code_simp
qed

theorem next_filename_is_max_plus_one_witness:
  "safe_listing 1 (readdirSync (ensure_dir dir13))
   \<and> convention_suffix ''true-color-1.png'' = Some 1
   \<and> \<not> startsWith ''notes.txt'' ''true-color-''
   \<and> convention_suffix ''true-color-3.png'' = Some 3
   \<and> spec_next_filename (readdirSync (ensure_dir dir13)) = ''true-color-4.png''
   \<and> fst (getNextFilename dir13) = ''true-color-4.png''"
proof -
  have h: "safe_listing 1 (readdirSync (ensure_dir dir13))"
    by code_simp
  have rest: "convention_suffix ''true-color-1.png'' = Some 1"
    "\<not> startsWith ''notes.txt'' ''true-color-''"
    "convention_suffix ''true-color-3.png'' = Some 3"
    "spec_next_filename (readdirSync (ensure_dir dir13)) = ''true-color-4.png''"
    by code_simp+
  have "\<forall>f \<in> set (readdirSync (ensure_dir dir13)).
          startsWith f ''true-color-'' \<and> endsWith f ''.png'' \<longrightarrow> convention_suffix f \<noteq> None"
    using rest by (simp add: dir13_def readdirSync_def ensure_dir_def)
  with next_filename_is_max_plus_one [OF h]
  have "fst (getNextFilename dir13) = spec_next_filename (readdirSync (ensure_dir dir13))"
    by blast
  with rest h show ?thesis
    by simp
qed

lemma digit_chars:
  "char_of (48::nat) = CHR ''0''" "char_of (49::nat) = CHR ''1''" "char_of (50::nat) = CHR ''2''"
  "char_of (51::nat) = CHR ''3''" "char_of (52::nat) = CHR ''4''" "char_of (53::nat) = CHR ''5''"
  "char_of (54::nat) = CHR ''6''" "char_of (55::nat) = CHR ''7''" "char_of (56::nat) = CHR ''8''"
  "char_of (57::nat) = CHR ''9''"
  by code_simp+

lemma digits_two_to_53: "digits 9007199254740992 = ''9007199254740992''"
  by (simp add: digits.simps digit_chars)

lemma name_two_to_53:
  "''true-color-9007199254740992.png''
     = ''true-color-'' @ toString (Fin 9007199254740992) @ ''.png''"
  by (simp add: digits_two_to_53)

lemma rounds_back: "to_double (9007199254740992 + 1) = 9007199254740992"
proof -
  have "bit_length 9007199254740993 = 54"
    by (simp add: bit_length.simps)
  then show ?thesis
    by (simp add: to_double_def round_nat_def Let_def)
qed

lemma file_number_two_to_53:
  "file_number ''true-color-9007199254740992.png'' = Fin 9007199254740992"
  unfolding name_two_to_53 by (rule file_number_of_safe_name) simp

lemma getNextFilename_dir_full:
  "getNextFilename dir_full = (''true-color-9007199254740992.png'', dir_full)"
proof -
  have "numbers [''true-color-9007199254740992.png''] = [Fin 9007199254740992]"
    using name_passes_filter [of "Fin 9007199254740992", folded name_two_to_53]
    by (simp add: numbers_Cons numbers_Nil file_number_two_to_53)
  then have "numbers (readdirSync (ensure_dir dir_full)) = map Fin [9007199254740992]"
    by (simp add: dir_full_def readdirSync_def ensure_dir_Some)
  from getNextFilename_Cons [OF this] show ?thesis
    by (simp only: list.set Max_singleton rounds_back name_two_to_53 [symmetric])
       (simp add: dir_full_def ensure_dir_Some)
qed

lemma image0_bytes:
  "at_index (split image0 CHR '','') (Suc 0) = Some ''TWFu''" "from_base64 ''TWFu'' = [77, 97, 110]"
  by code_simp+

text \<open>
  C6, as stated, fails where the counter leaves the safe integers. In a directory that
  holds \<open>true-color-9007199254740992.png\<close>, whose number is \<open>2^53\<close>, the sum
  \<open>2^53 + 1\<close> is no double and rounds back to \<open>2^53\<close>: the call succeeds, returns the
  name of the existing file and overwrites it. No file is created, the suffix does not
  exceed the one present, and the file that existed has changed.
\<close>

theorem counter_stops_at_two_to_53:
  "cacheImage image0 dir_full
     = (Inr (''/sentinel/true-color-9007199254740992.png'', ''true-color-9007199254740992.png''),
        Some [(''true-color-9007199254740992.png'', [77, 97, 110])])
   \<and> readFile dir_full ''true-color-9007199254740992.png'' = Some [1]
   \<and> file_number ''true-color-9007199254740992.png'' = Fin 9007199254740992"
  by (simp add: cacheImage_def getNextFilename_dir_full downloadImage_def image0_bytes
        writeFileSync_def file_number_two_to_53 readFile_def)
     (simp add: dir_full_def ensure_dir_Some)

text \<open>
  C6, amended. For a listing whose numbers leave room below \<open>2^53\<close> for the calls to
  come, and fewer than \<open>2^53\<close> calls: a successful call of the cache adds exactly one
  entry, under a name that was not there, whose number exceeds every number read from the
  listing, and every file that existed reads as before; a failing call changes no file.
  Hence over any sequence of calls, one at a time, the filenames given out are distinct,
  differ from the names already there, have strictly increasing numbers, and the files
  that existed at the start read as before.
\<close>

theorem cache_creates_one_new_file:
  assumes "safe_listing (length imgs + 1) (readdirSync (ensure_dir fs))"
    and "int (length imgs) + 1 < 2 ^ 53"
  shows "(cacheImage img fs = (Inr (url, name), fs1) \<longrightarrow>
            name \<notin> set (readdirSync (ensure_dir fs))
            \<and> readdirSync (ensure_dir fs1) = readdirSync (ensure_dir fs) @ [name]
            \<and> (\<forall>f \<in> set (readdirSync (ensure_dir fs)). readFile fs1 f = readFile fs f)
            \<and> (\<exists>k. file_number name = Fin k
                  \<and> (\<forall>j. Fin j \<in> set (numbers (readdirSync (ensure_dir fs))) \<longrightarrow> j < k)))
   \<and> (cacheImage img fs = (Inl e, fs1) \<longrightarrow>
            readdirSync (ensure_dir fs1) = readdirSync (ensure_dir fs)
            \<and> (\<forall>f. readFile fs1 f = readFile fs f))
   \<and> (cacheImages imgs fs = (names, fs2) \<longrightarrow>
            distinct names \<and> sorted_wrt number_below names
            \<and> set names \<inter> set (readdirSync (ensure_dir fs)) = {}
            \<and> set (readdirSync (ensure_dir fs2)) = set (readdirSync (ensure_dir fs)) \<union> set names
            \<and> (\<forall>f \<in> set (readdirSync (ensure_dir fs)). readFile fs2 f = readFile fs f))"
proof (intro conjI impI)
  have safe: "safe_listing 1 (readdirSync (ensure_dir fs))"
    using assms(1) by (rule safe_listing_mono) simp
  assume ok: "cacheImage img fs = (Inr (url, name), fs1)"
  show "name \<notin> set (readdirSync (ensure_dir fs))"
    by (rule cacheImage_step(1) [OF ok safe])
  show "readdirSync (ensure_dir fs1) = readdirSync (ensure_dir fs) @ [name]"
    by (rule cacheImage_step(2) [OF ok safe])
  show "\<forall>f \<in> set (readdirSync (ensure_dir fs)). readFile fs1 f = readFile fs f"
    by (rule cacheImage_step(3) [OF ok safe])
  show "\<exists>k. file_number name = Fin k
          \<and> (\<forall>j. Fin j \<in> set (numbers (readdirSync (ensure_dir fs))) \<longrightarrow> j < k)"
    using cacheImage_step(4) [OF ok safe] by blast
next
  assume "cacheImage img fs = (Inl e, fs1)"
  then have same: "ensure_dir fs1 = ensure_dir fs"
    using cacheImage_Inl [of img fs e fs1] by (simp add: ensure_dir_Some)
  then show "readdirSync (ensure_dir fs1) = readdirSync (ensure_dir fs)"
    by simp
  from same show "\<forall>f. readFile fs1 f = readFile fs f"
    by (simp add: readFile_def)
next
  have safe: "safe_listing (length imgs) (readdirSync (ensure_dir fs))"
    using assms(1) by (rule safe_listing_mono) simp
  have count: "int (length imgs) < 2 ^ 53"
    using assms(2) by simp
  assume run: "cacheImages imgs fs = (names, fs2)"
  note all = cacheImages_run [OF run safe count]
  from all show "distinct names" by blast
  from all show "sorted_wrt number_below names" by blast
  from all show "set names \<inter> set (readdirSync (ensure_dir fs)) = {}" by blast
  from all show "set (readdirSync (ensure_dir fs2))
                   = set (readdirSync (ensure_dir fs)) \<union> set names" by blast
  from all show "\<forall>f \<in> set (readdirSync (ensure_dir fs)). readFile fs2 f = readFile fs f" by blast
qed

theorem cache_creates_one_new_file_witness:
  "safe_listing (length [image0, image1] + 1) (readdirSync (ensure_dir dir13))
   \<and> int (length [image0, image1]) + 1 < 2 ^ 53
   \<and> cacheImage image0 dir13
       = (Inr (''/sentinel/true-color-4.png'', ''true-color-4.png''),
          Some [(''true-color-1.png'', [1]), (''notes.txt'', [2]), (''true-color-3.png'', [3]),
                (''true-color-4.png'', [77, 97, 110])])
   \<and> ''true-color-4.png'' \<notin> set (readdirSync (ensure_dir dir13))
   \<and> file_number ''true-color-4.png'' = Fin 4
   \<and> numbers (readdirSync (ensure_dir dir13)) = [Fin 1, Fin 3]
   \<and> cacheImages [image0, image1] dir13
       = ([''true-color-4.png'', ''true-color-5.png''],
          Some [(''true-color-1.png'', [1]), (''notes.txt'', [2]), (''true-color-3.png'', [3]),
                (''true-color-4.png'', [77, 97, 110]), (''true-color-5.png'', [77, 97])])
   \<and> distinct [''true-color-4.png'', ''true-color-5.png'']
   \<and> sorted_wrt number_below [''true-color-4.png'', ''true-color-5.png'']"
proof -
  have h: "safe_listing (length [image0, image1] + 1) (readdirSync (ensure_dir dir13))"
    by code_simp
  have c: "int (length [image0, image1]) + 1 < 2 ^ 53"
    by simp
  have one: "cacheImage image0 dir13
       = (Inr (''/sentinel/true-color-4.png'', ''true-color-4.png''),
          Some [(''true-color-1.png'', [1]), (''notes.txt'', [2]), (''true-color-3.png'', [3]),
                (''true-color-4.png'', [77, 97, 110])])"
    by code_simp
  have run: "cacheImages [image0, image1] dir13
       = ([''true-color-4.png'', ''true-color-5.png''],
          Some [(''true-color-1.png'', [1]), (''notes.txt'', [2]), (''true-color-3.png'', [3]),
                (''true-color-4.png'', [77, 97, 110]), (''true-color-5.png'', [77, 97])])"
    by code_simp
  have rest: "file_number ''true-color-4.png'' = Fin 4"
    "numbers (readdirSync (ensure_dir dir13)) = [Fin 1, Fin 3]"
    by code_simp+
  from cache_creates_one_new_file [OF h c, where img = image0
      and url = "''/sentinel/true-color-4.png''" and name = "''true-color-4.png''"
      and names = "[''true-color-4.png'', ''true-color-5.png'']"] one run
  have "''true-color-4.png'' \<notin> set (readdirSync (ensure_dir dir13))"
    "distinct [''true-color-4.png'', ''true-color-5.png'']"
    "sorted_wrt number_below [''true-color-4.png'', ''true-color-5.png'']"
    by blast+
  with h c one run rest show ?thesis
    by simp
qed

section \<open>The data URI\<close>

lemma of_char_b64_char:
  "(of_char (b64_char v) :: nat) =
     (if v < 26 then 65 + v else if v < 52 then 71 + v else if v < 62 then v - 4
      else if v = 62 then 43 else 47)"
  by (simp add: b64_char_def)

lemma b64_char_props:
  assumes "v < 64"
  shows "unbase64 (b64_char v) = Some v" "b64_char v \<noteq> CHR ''=''" "b64_char v \<noteq> CHR '',''"
proof -
  show "unbase64 (b64_char v) = Some v"
    using assms unfolding unbase64_def Let_def of_char_b64_char by auto
  have "(of_char (b64_char v) :: nat) \<noteq> 61" "(of_char (b64_char v) :: nat) \<noteq> 44"
    unfolding of_char_b64_char using assms by auto
  then show "b64_char v \<noteq> CHR ''=''" "b64_char v \<noteq> CHR '',''"
    by auto
qed

lemma byte_bound: "unat (a :: byte) < 256"
  using unsigned_less [of a, where ?'a = nat] by simp

lemma sextet_bounds:
  fixes a b :: byte
  shows "unat a div 4 < 64" "unat a mod 4 * 16 + unat b div 16 < 64"
    "unat a mod 16 * 4 + unat b div 64 < 64" "unat a mod 64 < 64"
    "unat a mod 4 * 16 < 64" "unat a mod 16 * 4 < 64"
  using byte_bound [of a] byte_bound [of b] mod_less_divisor [of 4 "unat a"]
    mod_less_divisor [of 16 "unat a"]
  by (simp_all add: less_mult_imp_div_less)

lemma regroup:
  fixes a b c :: byte
  shows "of_nat (unat a div 4 * 4 + (unat a mod 4 * 16 + unat b div 16) div 16) = a"
    "of_nat ((unat a mod 4 * 16 + unat b div 16) mod 16 * 16
        + (unat b mod 16 * 4 + unat c div 64) div 4) = b"
    "of_nat ((unat b mod 16 * 4 + unat c div 64) mod 4 * 64 + unat c mod 64) = c"
    "of_nat (unat a div 4 * 4 + (unat a mod 4 * 16) div 16) = a"
    "of_nat ((unat a mod 4 * 16 + unat b div 16) mod 16 * 16 + (unat b mod 16 * 4) div 4) = b"
  using byte_bound [of a] byte_bound [of b] byte_bound [of c] by simp_all

lemma pack_group:
  fixes a b c :: byte
  shows "pack_sextets [unat a div 4, unat a mod 4 * 16] = [a]"
    "pack_sextets [unat a div 4, unat a mod 4 * 16 + unat b div 16, unat b mod 16 * 4] = [a, b]"
    "pack_sextets (unat a div 4 # (unat a mod 4 * 16 + unat b div 16)
        # (unat b mod 16 * 4 + unat c div 64) # unat c mod 64 # r) = [a, b, c] @ pack_sextets r"
  by (simp_all only: pack_sextets.simps regroup)

lemma from_to_base64: "from_base64 (to_base64 bs) = bs"
proof (induction bs rule: to_base64.induct)
  case 1
  show ?case by (simp add: from_base64_def map_filter_simps)
next
  case (2 a)
  show ?case
    by (simp add: from_base64_def map_filter_simps b64_char_props sextet_bounds pack_group
          del: pack_sextets.simps)
next
  case (3 a b)
  show ?case
    by (simp add: from_base64_def map_filter_simps b64_char_props sextet_bounds pack_group
          del: pack_sextets.simps)
next
  case (4 a b c bs)
  have "from_base64 (to_base64 (a # b # c # bs)) = [a, b, c] @ from_base64 (to_base64 bs)"
    by (simp add: from_base64_def map_filter_simps b64_char_props sextet_bounds pack_group
          del: pack_sextets.simps)
  with 4 show ?case by simp
qed

lemma no_comma: "v < 64 \<Longrightarrow> CHR '','' \<noteq> b64_char v"
  using b64_char_props(3) [of v] by auto

lemma to_base64_no_comma: "CHR '','' \<notin> set (to_base64 bs)"
  by (induction bs rule: to_base64.induct) (simp_all add: no_comma sextet_bounds)

lemma split_none: "sep \<notin> set s \<Longrightarrow> split s sep = [s]"
  by (induction s) auto

lemma split_first: "sep \<notin> set p \<Longrightarrow> split (p @ sep # r) sep = p # split r sep"
  by (induction p) auto

lemma split_data_uri:
  "at_index (split (''data:image/png;base64,'' @ to_base64 bs) CHR '','') 1 = Some (to_base64 bs)"
proof -
  have "split (''data:image/png;base64'' @ CHR '','' # to_base64 bs) CHR '',''
          = ''data:image/png;base64'' # split (to_base64 bs) CHR '',''"
    by (rule split_first) simp
  then show ?thesis
    by (simp add: split_none [OF to_base64_no_comma] at_index_def)
qed

text \<open>
  C9. The bytes of the provider, encoded by \<open>fetchImage\<close> as a data URI and decoded by
  \<open>downloadImage\<close> from the text after the first comma, are the bytes written to the
  file: decoding undoes encoding, the encoding holds no comma, and the file stored under
  the filename reads as the bytes received.
\<close>

theorem data_uri_round_trip:
  "from_base64 (to_base64 buf) = buf
   \<and> fetchImage (ProcessOk buf) = Inr (''data:image/png;base64,'' @ to_base64 buf)
   \<and> downloadImage (''data:image/png;base64,'' @ to_base64 buf) name fs
       = Inr (''/sentinel/'' @ name, Some (writeFileSync name buf (ensure_dir fs)))
   \<and> readFile (Some (writeFileSync name buf (ensure_dir fs))) name = Some buf"
  using split_data_uri [of buf]
  by (simp add: from_to_base64 fetchImage_def downloadImage_def readFile_def writeFileSync_def
        ensure_dir_Some update_conv')

end
